theory Spec2Isabelle
  imports Main "HOL-Library.Word" "HOL-Library.Monad_Syntax"
begin

unbundle bit_operations_syntax

section \<open>The BEAM frame codec (3-byte header profile, bitwise CRC engine)\<close>

text \<open>
  The development embeds the parser translation unit that defines
  \<open>compute_crc16_per_byte\<close>, \<open>compute_frame_crc\<close>, \<open>fill_payload\<close>,
  \<open>parse_into_frame\<close>, \<open>serialize_frame\<close>, \<open>beam_parse_into_frame\<close> and
  \<open>beam_serialize_frame\<close>, together with the declarations of \<open>payload_type.h\<close> and of
  the 3-byte-header \<open>frame.h\<close>.

  Conventions of the embedding.
  \<^item> \<open>uint8_t\<close> is \<open>8 word\<close>, \<open>uint16_t\<close> is \<open>16 word\<close>. \<open>size_t\<close> values are
    \<open>nat\<close>: the only arithmetic on them is \<open>3 + len + 2\<close> with \<open>len \<le> 255\<close>, which
    cannot wrap.
  \<^item> A buffer \<open>(pointer, length)\<close> is a byte list, its length being the list's length;
    a pointer argument that may be \<open>NULL\<close> is an \<open>option\<close>.
  \<^item> Every function that touches memory returns an \<open>option\<close>: \<open>None\<close> stands for an
    access outside the object (undefined behaviour in C), so that memory safety is a
    theorem and not an assumption of the model.
  \<^item> The payload union is its storage, \<open>MAX_PAYLOAD_SIZE\<close> bytes; the typed members
    \<open>telemetry\<close> and \<open>battery\<close> are the first 12 and the first 5 of these bytes.
\<close>

subsection \<open>Constants and types\<close>

type_synonym uint8_t = "8 word"
type_synonym uint16_t = "16 word"

datatype esp_err_t =
  ESP_OK | ESP_ERR_INVALID_ARG | ESP_ERR_INVALID_STATE | ESP_ERR_INVALID_SIZE | ESP_ERR_INVALID_CRC

definition FRAME_HEADER_SIZE :: nat where
  "FRAME_HEADER_SIZE = 3"

definition FRAME_CRC_SIZE :: nat where
  "FRAME_CRC_SIZE = 2"

definition FRAME_SIZE :: "nat \<Rightarrow> nat" where
  "FRAME_SIZE n = FRAME_HEADER_SIZE + n + FRAME_CRC_SIZE"

definition CRC_INIT :: uint16_t where
  "CRC_INIT = 0xFFFF"

definition CRC_BIT_MASK :: uint16_t where
  "CRC_BIT_MASK = 0x8000"

definition CRC_POLYNOM :: uint16_t where
  "CRC_POLYNOM = 0x1021"

definition BEAM_FRAME_MIN_SIZE :: nat where
  "BEAM_FRAME_MIN_SIZE = 5"

definition MAX_PAYLOAD_SIZE :: nat where
  "MAX_PAYLOAD_SIZE = 200"

text \<open>\<open>sizeof(beam_payload_telemetry_t)\<close>: three packed \<open>float\<close>s.\<close>

definition sizeof_telemetry :: nat where
  "sizeof_telemetry = 12"

text \<open>\<open>sizeof(beam_payload_battery_t)\<close>: two packed \<open>uint16_t\<close> and one \<open>uint8_t\<close>.\<close>

definition sizeof_battery :: nat where
  "sizeof_battery = 5"

text \<open>
  Modelled from the spec: the header that defines \<open>MSG_ID_TELEMETRY\<close> and
  \<open>MSG_ID_BATTERY\<close> for the 3-byte profile is not among the sources. The specification's
  concrete example gives category byte \<open>0x00\<close> to Telemetry, and the enumeration of the
  4-byte profile (\<open>MSG_CAT_TELEMETRY\<close>, \<open>MSG_CAT_BATTERY\<close>) numbers them 0 and 1.
\<close>

definition MSG_ID_TELEMETRY :: uint8_t where
  "MSG_ID_TELEMETRY = 0"

definition MSG_ID_BATTERY :: uint8_t where
  "MSG_ID_BATTERY = 1"

record beam_frame_header =
  msg_id :: uint8_t
  seq :: uint8_t
  len :: uint8_t

record beam_frame =
  header :: beam_frame_header
  payload :: "uint8_t list"
  crc :: uint16_t

subsection \<open>Memory accesses\<close>

text \<open>\<open>buf[i]\<close> as an rvalue.\<close>

definition rd :: "uint8_t list \<Rightarrow> nat \<Rightarrow> uint8_t option" where
  "rd buf i = (if i < length buf then Some (buf ! i) else None)"

text \<open>\<open>buf[i] = v\<close>.\<close>

definition wr :: "uint8_t list \<Rightarrow> nat \<Rightarrow> uint8_t \<Rightarrow> uint8_t list option" where
  "wr buf i v = (if i < length buf then Some (buf[i := v]) else None)"

text \<open>\<open>memcpy(dst + off, src, n)\<close>: \<open>n\<close> bytes from the start of \<open>src\<close>.\<close>

definition memcpy :: "uint8_t list \<Rightarrow> nat \<Rightarrow> uint8_t list \<Rightarrow> nat \<Rightarrow> uint8_t list option" where
  "memcpy dst off src n =
     (if off + n \<le> length dst \<and> n \<le> length src
      then Some (take off dst @ take n src @ drop (off + n) dst)
      else None)"

subsection \<open>CRC engine\<close>

text \<open>
  The loop \<open>for (uint8_t i = 0; i < 8; i++)\<close> of \<open>compute_crc16_per_byte\<close>. The shift
  and the exclusive or are computed in \<open>int\<close> by promotion and truncated by the assignment
  to the \<open>uint16_t\<close> register, which is the 16-bit shift.
\<close>

function crc16_bit_loop :: "nat \<Rightarrow> uint16_t \<Rightarrow> uint16_t" where
  "crc16_bit_loop i c =
     (if i < 8
      then crc16_bit_loop (i + 1)
             (if c AND CRC_BIT_MASK \<noteq> 0 then push_bit 1 c XOR CRC_POLYNOM else push_bit 1 c)
      else c)"
  by pat_completeness auto
termination
  by (relation "measure (\<lambda>(i, c). 8 - i)") auto

declare crc16_bit_loop.simps [simp del]

definition compute_crc16_per_byte :: "uint16_t \<Rightarrow> uint8_t \<Rightarrow> uint16_t" where
  "compute_crc16_per_byte c d = crc16_bit_loop 0 (c XOR push_bit 8 (ucast d))"

text \<open>The payload loop \<open>for (size_t i = 0; i < payload_len; i++)\<close> of \<open>compute_frame_crc\<close>.\<close>

function crc_payload_loop :: "uint8_t list \<Rightarrow> nat \<Rightarrow> nat \<Rightarrow> uint16_t \<Rightarrow> uint16_t option" where
  "crc_payload_loop data payload_len i c =
     (if i < payload_len
      then (case rd data (FRAME_HEADER_SIZE + i) of
              None \<Rightarrow> None
            | Some b \<Rightarrow> crc_payload_loop data payload_len (i + 1) (compute_crc16_per_byte c b))
      else Some c)"
  by pat_completeness auto
termination
  by (relation "measure (\<lambda>(data, payload_len, i, c). payload_len - i)") auto

declare crc_payload_loop.simps [simp del]

definition compute_frame_crc :: "uint8_t list \<Rightarrow> nat \<Rightarrow> uint16_t option" where
  "compute_frame_crc data payload_len = do {
     b0 \<leftarrow> rd data 0;
     b1 \<leftarrow> rd data 1;
     b2 \<leftarrow> rd data 2;
     crc_payload_loop data payload_len 0
       (compute_crc16_per_byte (compute_crc16_per_byte (compute_crc16_per_byte CRC_INIT b0) b1) b2)
   }"

subsection \<open>Payload dispatcher\<close>

definition fill_payload ::
  "uint8_t \<Rightarrow> uint8_t list \<Rightarrow> uint8_t \<Rightarrow> uint8_t list \<Rightarrow> uint8_t list option" where
  "fill_payload m payload_src n pl =
     (if m = MSG_ID_TELEMETRY then
        (if unat n \<ge> sizeof_telemetry then memcpy pl 0 payload_src sizeof_telemetry
         else memcpy pl 0 payload_src (unat n))
      else if m = MSG_ID_BATTERY then
        (if unat n \<ge> sizeof_battery then memcpy pl 0 payload_src sizeof_battery
         else memcpy pl 0 payload_src (unat n))
      else memcpy pl 0 payload_src (unat n))"

subsection \<open>Frame parser\<close>

text \<open>
  \<open>parse_into_frame\<close> with the CRC engine as a parameter: the repository has two engines
  behind the same call site (the bitwise \<open>compute_frame_crc\<close> here and the ROM routine
  \<open>esp_crc16_be\<close> in the 4-byte profile). Every \<open>PARSER_RETURN_ON_FALSE\<close> is a branch
  that returns the error together with the untouched output frame.
\<close>

definition parse_into_frame_with ::
  "(uint8_t list \<Rightarrow> nat \<Rightarrow> uint16_t option) \<Rightarrow> uint8_t list \<Rightarrow> beam_frame
     \<Rightarrow> (esp_err_t \<times> beam_frame) option" where
  "parse_into_frame_with engine data out =
     (if \<not> length data \<ge> FRAME_HEADER_SIZE then Some (ESP_ERR_INVALID_SIZE, out)
      else do {
        n \<leftarrow> rd data 2;
        if \<not> unat n \<le> MAX_PAYLOAD_SIZE then Some (ESP_ERR_INVALID_SIZE, out)
        else if \<not> length data \<ge> FRAME_SIZE (unat n) then Some (ESP_ERR_INVALID_SIZE, out)
        else do {
          expected_crc \<leftarrow> engine data (unat n);
          lo \<leftarrow> rd data (FRAME_HEADER_SIZE + unat n);
          hi \<leftarrow> rd data (FRAME_HEADER_SIZE + unat n + 1);
          let received_crc = (ucast lo :: uint16_t) OR push_bit 8 (ucast hi);
          if \<not> expected_crc = received_crc then Some (ESP_ERR_INVALID_CRC, out)
          else do {
            b0 \<leftarrow> rd data 0;
            b1 \<leftarrow> rd data 1;
            let out1 = out\<lparr>header := \<lparr>msg_id = b0, seq = b1, len = n\<rparr>\<rparr>;
            pl \<leftarrow> fill_payload (msg_id (header out1)) (drop FRAME_HEADER_SIZE data) n (payload out1);
            Some (ESP_OK, out1\<lparr>payload := pl, crc := received_crc\<rparr>)
          }
        }
      })"

definition parse_into_frame :: "uint8_t list \<Rightarrow> beam_frame \<Rightarrow> (esp_err_t \<times> beam_frame) option" where
  "parse_into_frame = parse_into_frame_with compute_frame_crc"

definition beam_parse_into_frame ::
  "uint8_t list option \<Rightarrow> beam_frame option \<Rightarrow> (esp_err_t \<times> beam_frame option) option" where
  "beam_parse_into_frame data out_frame =
     (case data of
        None \<Rightarrow> Some (ESP_ERR_INVALID_ARG, out_frame)
      | Some d \<Rightarrow>
         (case out_frame of
            None \<Rightarrow> Some (ESP_ERR_INVALID_ARG, None)
          | Some out \<Rightarrow>
              if \<not> length d \<ge> BEAM_FRAME_MIN_SIZE then Some (ESP_ERR_INVALID_SIZE, Some out)
              else map_option (\<lambda>(e, f). (e, Some f)) (parse_into_frame d out)))"

subsection \<open>Frame serializer\<close>

text \<open>
  \<open>out_size\<close> is \<open>None\<close> for a \<open>NULL\<close> pointer and \<open>Some v\<close> for a pointer to a
  \<open>size_t\<close> holding \<open>v\<close>; \<open>buffer_size\<close> is the length of \<open>out_buffer\<close>.
\<close>

definition serialize_frame ::
  "beam_frame \<Rightarrow> uint8_t list \<Rightarrow> nat option \<Rightarrow> (esp_err_t \<times> uint8_t list \<times> nat option) option" where
  "serialize_frame frame out_buffer out_size =
     (let required_size = FRAME_SIZE (unat (len (header frame))) in
      if \<not> length out_buffer \<ge> required_size then Some (ESP_ERR_INVALID_SIZE, out_buffer, out_size)
      else do {
        b \<leftarrow> wr out_buffer 0 (msg_id (header frame));
        b \<leftarrow> wr b 1 (seq (header frame));
        b \<leftarrow> wr b 2 (len (header frame));
        b \<leftarrow> memcpy b FRAME_HEADER_SIZE (payload frame) (unat (len (header frame)));
        c \<leftarrow> compute_frame_crc b (unat (len (header frame)));
        let crc_offset = FRAME_HEADER_SIZE + unat (len (header frame));
        b \<leftarrow> wr b crc_offset (ucast (c AND 0xFF));
        b \<leftarrow> wr b (crc_offset + 1) (ucast (drop_bit 8 c AND 0xFF));
        Some (ESP_OK, b, (case out_size of None \<Rightarrow> None | Some v \<Rightarrow> Some required_size))
      })"

definition beam_serialize_frame ::
  "beam_frame option \<Rightarrow> uint8_t list option \<Rightarrow> nat option
     \<Rightarrow> (esp_err_t \<times> uint8_t list option \<times> nat option) option" where
  "beam_serialize_frame frame out_buffer out_size =
     (case frame of
        None \<Rightarrow> Some (ESP_ERR_INVALID_ARG, out_buffer, out_size)
      | Some fr \<Rightarrow>
         (case out_buffer of
            None \<Rightarrow> Some (ESP_ERR_INVALID_ARG, None, out_size)
          | Some buf \<Rightarrow>
              if \<not> unat (len (header fr)) \<le> MAX_PAYLOAD_SIZE
              then Some (ESP_ERR_INVALID_STATE, Some buf, out_size)
              else map_option (\<lambda>(e, b, s). (e, Some b, s)) (serialize_frame fr buf out_size)))"

subsection \<open>Auxiliary notions used in the statements\<close>

text \<open>The body of the bit loop, and the CRC of a byte sequence as the fold of the byte step.\<close>

definition crc16_shift :: "uint16_t \<Rightarrow> uint16_t" where
  "crc16_shift c = (if c AND CRC_BIT_MASK \<noteq> 0 then push_bit 1 c XOR CRC_POLYNOM else push_bit 1 c)"

definition crc16 :: "uint8_t list \<Rightarrow> uint16_t" where
  "crc16 bs = foldl compute_crc16_per_byte CRC_INIT bs"

text \<open>
  The reference CRC-16/CCITT of the specification, written from its words over natural
  numbers and independently of the machine-word code: a 16-bit register, initially
  \<open>0xFFFF\<close>; each byte is combined by exclusive or into the high half; then eight times
  the register is shifted left by one, and if the bit shifted out was 1 the result is
  combined by exclusive or with the polynomial \<open>0x1021\<close>.
\<close>

definition ccitt_shift :: "nat \<Rightarrow> nat" where
  "ccitt_shift r =
     (let s = 2 * r in
      if s div 65536 = 1 then (s mod 65536) XOR 0x1021 else s mod 65536)"

definition ccitt_byte :: "nat \<Rightarrow> nat \<Rightarrow> nat" where
  "ccitt_byte r b = (ccitt_shift ^^ 8) (r XOR (b * 256))"

definition crc16_ccitt :: "nat list \<Rightarrow> nat" where
  "crc16_ccitt bs = foldl ccitt_byte 0xFFFF bs"

text \<open>
  The 16-bit value read from two bytes, least significant first (the parser's
  \<open>received_crc\<close>), and the two bytes the serializer writes for a checksum.
\<close>

definition le16 :: "uint8_t \<Rightarrow> uint8_t \<Rightarrow> uint16_t" where
  "le16 lo hi = ucast lo OR push_bit 8 (ucast hi)"

definition crc_lo :: "uint16_t \<Rightarrow> uint8_t" where
  "crc_lo c = ucast (c AND 0xFF)"

definition crc_hi :: "uint16_t \<Rightarrow> uint8_t" where
  "crc_hi c = ucast (drop_bit 8 c AND 0xFF)"

text \<open>The number of bytes \<open>fill_payload\<close> copies for a category byte and a declared length.\<close>

definition stored_size :: "uint8_t \<Rightarrow> uint8_t \<Rightarrow> nat" where
  "stored_size m n =
     (if m = MSG_ID_TELEMETRY \<and> sizeof_telemetry \<le> unat n then sizeof_telemetry
      else if m = MSG_ID_BATTERY \<and> sizeof_battery \<le> unat n then sizeof_battery
      else unat n)"

text \<open>
  The bytes a frame puts on the wire: header and \<open>len\<close> payload bytes, then the checksum
  of these, low byte first.
\<close>

definition frame_bytes :: "beam_frame \<Rightarrow> uint8_t list" where
  "frame_bytes F =
     [msg_id (header F), seq (header F), len (header F)] @ take (unat (len (header F))) (payload F)"

definition wire_of :: "beam_frame \<Rightarrow> uint8_t list" where
  "wire_of F = frame_bytes F @ [crc_lo (crc16 (frame_bytes F)), crc_hi (crc16 (frame_bytes F))]"

text \<open>
  The checksum a buffer carries behind its declared payload, and the frame a successful
  parse of the buffer leaves in the output object.
\<close>

definition received_crc_of :: "uint8_t list \<Rightarrow> uint16_t" where
  "received_crc_of data =
     le16 (data ! (FRAME_HEADER_SIZE + unat (data ! 2))) (data ! (FRAME_HEADER_SIZE + unat (data ! 2) + 1))"

definition parsed_frame :: "uint8_t list \<Rightarrow> beam_frame \<Rightarrow> beam_frame" where
  "parsed_frame data out =
     \<lparr>header = \<lparr>msg_id = data ! 0, seq = data ! 1, len = data ! 2\<rparr>,
      payload = take (stored_size (data ! 0) (data ! 2)) (drop FRAME_HEADER_SIZE data)
                @ drop (stored_size (data ! 0) (data ! 2)) (payload out),
      crc = received_crc_of data\<rparr>"

text \<open>The ASCII digits \<open>123456789\<close>, the customary check input of CRC catalogues.\<close>

definition check_input :: "uint8_t list" where
  "check_input = [0x31, 0x32, 0x33, 0x34, 0x35, 0x36, 0x37, 0x38, 0x39]"

text \<open>Concrete frames and buffers used to instantiate the theorems.\<close>

definition out0 :: beam_frame where
  "out0 = \<lparr>header = \<lparr>msg_id = 0, seq = 0, len = 0\<rparr>, payload = replicate 200 0, crc = 0\<rparr>"

definition F1 :: beam_frame where
  "F1 = \<lparr>header = \<lparr>msg_id = 0, seq = 7, len = 13\<rparr>,
         payload = [1, 2, 3, 4, 5, 6, 7, 8, 9, 10, 11, 12, 13] @ replicate 187 0, crc = 0\<rparr>"

definition W1 :: "uint8_t list" where
  "W1 = [0, 7, 13, 1, 2, 3, 4, 5, 6, 7, 8, 9, 10, 11, 12, 13, 147, 174]"

definition G1 :: beam_frame where
  "G1 = \<lparr>header = \<lparr>msg_id = 0, seq = 7, len = 13\<rparr>,
         payload = [1, 2, 3, 4, 5, 6, 7, 8, 9, 10, 11, 12] @ replicate 188 0, crc = 0xAE93\<rparr>"

definition F2 :: beam_frame where
  "F2 = \<lparr>header = \<lparr>msg_id = 5, seq = 9, len = 2\<rparr>,
         payload = [0xF4, 0x9D] @ replicate 198 0, crc = 0\<rparr>"

definition Fmax :: beam_frame where
  "Fmax = \<lparr>header = \<lparr>msg_id = 9, seq = 1, len = 200\<rparr>, payload = replicate 200 0xAB, crc = 0\<rparr>"

definition W0 :: "uint8_t list" where
  "W0 = [0, 0, 0, 0x9C, 0xCC]"

definition W2 :: "uint8_t list" where
  "W2 = [5, 9, 2, 0xF4, 0x9D, 0x5D, 0x22]"

definition Wmax :: "uint8_t list" where
  "Wmax = [9, 1, 200] @ replicate 200 0xAB @ [0x0C, 0x06]"

section \<open>The CRC engine\<close>

lemma crc16_bit_loop_unfold:
  "crc16_bit_loop i c = (if i < 8 then crc16_bit_loop (i + 1) (crc16_shift c) else c)"
  by (subst crc16_bit_loop.simps) (simp only: crc16_shift_def)

lemma crc16_bit_loop_funpow: "crc16_bit_loop i c = (crc16_shift ^^ (8 - i)) c"
proof (induction "8 - i" arbitrary: i c)
  case 0
  then show ?case by (subst crc16_bit_loop_unfold) simp
next
  case (Suc k)
  then have lt: "i < 8" and k: "k = 8 - (i + 1)" by simp_all
  have "crc16_bit_loop i c = crc16_bit_loop (i + 1) (crc16_shift c)"
    using lt by (subst crc16_bit_loop_unfold) simp
  also have "\<dots> = (crc16_shift ^^ k) (crc16_shift c)"
    using Suc.hyps(1) [OF k] k by simp
  also have "\<dots> = (crc16_shift ^^ (8 - i)) c"
    using Suc.hyps(2) by (simp add: funpow_swap1 flip: Suc.hyps(2))
  finally show ?case .
qed

lemma mask_bit15: "c AND CRC_BIT_MASK \<noteq> 0 \<longleftrightarrow> bit c 15" for c :: uint16_t
proof -
  have "CRC_BIT_MASK = 2 ^ 15" by (simp add: CRC_BIT_MASK_def)
  then show ?thesis using and_exp_eq_0_iff_not_bit [of c 15] by simp
qed

lemma bit15_unat: "bit c 15 \<longleftrightarrow> 32768 \<le> unat c" for c :: uint16_t
proof -
  have "bit c 15 \<longleftrightarrow> bit (unat c) 15"
    by (simp add: bit_unsigned_iff)
  also have "\<dots> \<longleftrightarrow> odd (unat c div 2 ^ 15)"
    by (simp add: bit_iff_odd)
  also have "\<dots> \<longleftrightarrow> 32768 \<le> unat c"
  proof -
    have "unat c < 65536" using unsigned_less [of c] by simp
    then have "unat c div 32768 < 2" by simp
    then have "unat c div 32768 = 0 \<or> unat c div 32768 = 1" by linarith
    then show ?thesis by auto
  qed
  finally show ?thesis .
qed

lemma unat_double: "unat (c * 2) = (2 * unat c) mod 65536" for c :: uint16_t
  by (simp add: unat_word_ariths mult.commute)

lemma unat_crc16_shift: "unat (crc16_shift c) = ccitt_shift (unat c)"
proof -
  have lt: "unat c < 65536" using unsigned_less [of c] by simp
  have "(2 * unat c) div 65536 = 1 \<longleftrightarrow> 32768 \<le> unat c"
    using lt by auto
  moreover have "\<not> 32768 \<le> unat c \<Longrightarrow> (2 * unat c) mod 65536 = 2 * unat c"
    by simp
  ultimately show ?thesis
    by (simp add: crc16_shift_def ccitt_shift_def Let_def mask_bit15 bit15_unat
        unsigned_xor_eq unat_double CRC_POLYNOM_def)
qed

lemma unat_funpow_shift: "unat ((crc16_shift ^^ k) c) = (ccitt_shift ^^ k) (unat c)"
  by (induction k arbitrary: c) (simp_all add: unat_crc16_shift)

lemma unat_byte_high: "unat (push_bit 8 (ucast d :: uint16_t)) = unat d * 256" for d :: uint8_t
proof -
  have lt: "unat d < 256" using unsigned_less [of d] by simp
  then have "unat d * 256 < 65536" by simp
  moreover have "unat (ucast d :: uint16_t) = unat d"
    using lt by (simp add: unsigned_ucast_eq take_bit_eq_mod)
  ultimately show ?thesis
    by (simp add: push_bit_eq_mult unat_word_ariths)
qed

lemma unat_compute_crc16_per_byte:
  "unat (compute_crc16_per_byte c d) = ccitt_byte (unat c) (unat d)"
  by (simp only: compute_crc16_per_byte_def crc16_bit_loop_funpow ccitt_byte_def
      unat_funpow_shift unsigned_xor_eq unat_byte_high diff_zero)

lemma crc_payload_loop_foldl:
  "FRAME_HEADER_SIZE + n \<le> length data \<Longrightarrow> i \<le> n \<Longrightarrow>
   crc_payload_loop data n i c =
     Some (foldl compute_crc16_per_byte c (take (n - i) (drop (FRAME_HEADER_SIZE + i) data)))"
proof (induction "n - i" arbitrary: i c)
  case 0
  then show ?case by (subst crc_payload_loop.simps) simp
next
  case (Suc k)
  then have lt: "i < n" and k: "k = n - (i + 1)" by simp_all
  from lt Suc.prems have inb: "FRAME_HEADER_SIZE + i < length data" by simp
  have split: "take (n - i) (drop (FRAME_HEADER_SIZE + i) data) =
      data ! (FRAME_HEADER_SIZE + i) # take (n - (i + 1)) (drop (FRAME_HEADER_SIZE + (i + 1)) data)"
  proof -
    have "drop (FRAME_HEADER_SIZE + i) data =
        data ! (FRAME_HEADER_SIZE + i) # drop (Suc (FRAME_HEADER_SIZE + i)) data"
      using inb by (simp add: Cons_nth_drop_Suc)
    moreover have "n - i = Suc (n - (i + 1))" using lt by simp
    ultimately show ?thesis by simp
  qed
  have "crc_payload_loop data n i c =
      crc_payload_loop data n (i + 1) (compute_crc16_per_byte c (data ! (FRAME_HEADER_SIZE + i)))"
    using lt inb by (subst crc_payload_loop.simps) (simp add: rd_def)
  also have "\<dots> = Some (foldl compute_crc16_per_byte
      (compute_crc16_per_byte c (data ! (FRAME_HEADER_SIZE + i)))
      (take (n - (i + 1)) (drop (FRAME_HEADER_SIZE + (i + 1)) data)))"
    using Suc.hyps(1) [OF k Suc.prems(1)] lt by simp
  finally show ?case by (simp only: split foldl_Cons)
qed

lemma compute_frame_crc_eq:
  assumes "FRAME_HEADER_SIZE + n \<le> length data"
  shows "compute_frame_crc data n = Some (crc16 (take (FRAME_HEADER_SIZE + n) data))"
proof -
  from assms have l3: "3 \<le> length data" by (simp add: FRAME_HEADER_SIZE_def)
  then obtain b0 b1 b2 rest where data: "data = b0 # b1 # b2 # rest"
    by (cases data; cases "tl data"; cases "tl (tl data)") auto
  have "compute_frame_crc data n =
      crc_payload_loop data n 0
        (compute_crc16_per_byte (compute_crc16_per_byte (compute_crc16_per_byte CRC_INIT b0) b1) b2)"
    by (simp add: compute_frame_crc_def rd_def data)
  also have "\<dots> = Some (foldl compute_crc16_per_byte
        (compute_crc16_per_byte (compute_crc16_per_byte (compute_crc16_per_byte CRC_INIT b0) b1) b2)
        (take n (drop FRAME_HEADER_SIZE data)))"
    using crc_payload_loop_foldl [OF assms, of 0] by simp
  also have "\<dots> = Some (crc16 (take (FRAME_HEADER_SIZE + n) data))"
    by (simp add: crc16_def data FRAME_HEADER_SIZE_def eval_nat_numeral)
  finally show ?thesis .
qed

lemma unat_crc16: "unat (crc16 bs) = crc16_ccitt (map unat bs)"
proof -
  have "unat (foldl compute_crc16_per_byte c bs) = foldl ccitt_byte (unat c) (map unat bs)" for c
    by (induction bs arbitrary: c) (simp_all add: unat_compute_crc16_per_byte)
  then show ?thesis
    by (simp add: crc16_def crc16_ccitt_def CRC_INIT_def)
qed

text \<open>
  Claim C2. The CRC engine computes the reference CRC-16/CCITT: the byte step
  \<open>compute_crc16_per_byte\<close> is the reference byte step on the register's value, and
  \<open>compute_frame_crc data n\<close>, called on a buffer that holds the header and \<open>n\<close> payload
  bytes (the precondition its documentation states), returns the reference checksum of
  these \<open>3 + n\<close> bytes. Being a HOL function of the bytes, the result is deterministic.
\<close>

theorem crc_engine_is_ccitt:
  assumes "FRAME_HEADER_SIZE + n \<le> length data"
  shows "unat (compute_crc16_per_byte c d) = ccitt_byte (unat c) (unat d) \<and>
         (\<exists>r. compute_frame_crc data n = Some r \<and>
              unat r = crc16_ccitt (map unat (take (FRAME_HEADER_SIZE + n) data)))"
  using compute_frame_crc_eq [OF assms] by (simp add: unat_crc16 unat_compute_crc16_per_byte)

theorem crc_engine_is_ccitt_witness:
  "FRAME_HEADER_SIZE + 6 \<le> length check_input \<and>
   compute_frame_crc check_input 6 = Some 0x29B1 \<and>
   crc16_ccitt (map unat (take (FRAME_HEADER_SIZE + 6) check_input)) = 0x29B1"
proof -
  have h: "FRAME_HEADER_SIZE + 6 \<le> length check_input"
    by (simp add: FRAME_HEADER_SIZE_def check_input_def)
  have e: "compute_frame_crc check_input 6 = Some 0x29B1"
    by code_simp
  from crc_engine_is_ccitt [OF h, of 0 0] e show ?thesis
    using h by auto
qed

section \<open>Checksum bytes and detection of changed bytes\<close>

lemma bit_le16: "bit (le16 lo hi) k \<longleftrightarrow> (if k < 8 then bit lo k else k < 16 \<and> bit hi (k - 8))"
  by (auto simp add: le16_def bit_or_iff bit_ucast_iff bit_push_bit_iff dest: bit_imp_le_length)

lemma xFF_mask: "(0xFF :: uint16_t) = mask 8"
  by (simp add: mask_eq_exp_minus_1)

lemma bit_crc_lo: "bit (crc_lo c) k \<longleftrightarrow> k < 8 \<and> bit c k"
  by (auto simp add: crc_lo_def xFF_mask bit_ucast_iff bit_and_iff bit_mask_iff)

lemma bit_crc_hi: "bit (crc_hi c) k \<longleftrightarrow> k < 8 \<and> bit c (k + 8)"
  by (auto simp add: crc_hi_def xFF_mask bit_ucast_iff bit_and_iff bit_mask_iff bit_drop_bit_eq add.commute)

lemma le16_crc_bytes: "le16 (crc_lo c) (crc_hi c) = c"
  by (rule bit_word_eqI) (auto simp add: bit_le16 bit_crc_lo bit_crc_hi)

lemma le16_inj: "le16 a b = le16 a' b' \<Longrightarrow> a = a' \<and> b = b'"
proof
  assume e: "le16 a b = le16 a' b'"
  show "a = a'"
  proof (rule bit_word_eqI)
    fix k assume "k < LENGTH(8)"
    then have "k < 8" by simp
    with e bit_le16 [of a b k] bit_le16 [of a' b' k] show "bit a k = bit a' k" by simp
  qed
  show "b = b'"
  proof (rule bit_word_eqI)
    fix k assume "k < LENGTH(8)"
    then have "k < 8" by simp
    with e bit_le16 [of a b "k + 8"] bit_le16 [of a' b' "k + 8"] show "bit b k = bit b' k" by simp
  qed
qed

lemma poly_bits: "bit CRC_POLYNOM k \<longleftrightarrow> k = 0 \<or> k = 5 \<or> k = 12"
proof -
  have p: "CRC_POLYNOM = 2 ^ 12 OR 2 ^ 5 OR 1"
    by (simp add: CRC_POLYNOM_def)
  have "bit (2 ^ 12 OR 2 ^ 5 OR 1 :: uint16_t) k \<longleftrightarrow> k = 0 \<or> k = 5 \<or> k = 12"
    unfolding bit_or_iff bit_exp_iff bit_1_iff by auto
  then show ?thesis by (simp only: p)
qed

lemma bit_shl1: "bit (push_bit 1 c) k \<longleftrightarrow> 0 < k \<and> k < 16 \<and> bit c (k - 1)" for c :: uint16_t
  unfolding bit_push_bit_iff by (auto dest: bit_imp_le_length)

lemma xor_cancel_right: "a XOR x = b XOR x \<Longrightarrow> a = b" for a b x :: uint16_t
proof -
  assume "a XOR x = b XOR x"
  then have "(a XOR x) XOR x = (b XOR x) XOR x" by simp
  then show ?thesis by (simp only: xor.assoc xor_self_eq xor.comm_neutral)
qed

lemma bit_crc16_shift:
  "bit (crc16_shift c) k \<longleftrightarrow>
     k < 16 \<and> ((0 < k \<and> bit c (k - 1)) \<noteq> (bit c 15 \<and> (k = 0 \<or> k = 5 \<or> k = 12)))"
  unfolding crc16_shift_def mask_bit15
  by (cases "bit c 15") (auto simp only: bit_xor_iff bit_shl1 poly_bits if_True if_False)

lemma crc16_shift_inj: "crc16_shift a = crc16_shift b \<Longrightarrow> a = b"
proof (rule bit_word_eqI)
  fix k assume e: "crc16_shift a = crc16_shift b" and "k < LENGTH(16)"
  then have k: "k < 16" by simp
  from e bit_crc16_shift [of a 0] bit_crc16_shift [of b 0] have top: "bit a 15 = bit b 15"
    by simp
  from e have "bit (crc16_shift a) (k + 1) = bit (crc16_shift b) (k + 1)" by simp
  then show "bit a k = bit b k"
    using k top by (cases "k = 15") (auto simp add: bit_crc16_shift)
qed

lemma byte_high_inj: "push_bit 8 (ucast d :: uint16_t) = push_bit 8 (ucast d') \<Longrightarrow> d = d'"
  for d d' :: uint8_t
proof (rule bit_word_eqI)
  fix k assume e: "push_bit 8 (ucast d :: uint16_t) = push_bit 8 (ucast d')" and "k < LENGTH(8)"
  then have k: "k < 8" by simp
  from e have "bit (push_bit 8 (ucast d :: uint16_t)) (k + 8) = bit (push_bit 8 (ucast d' :: uint16_t)) (k + 8)"
    by simp
  then show "bit d k = bit d' k"
    using k by (simp add: bit_push_bit_iff bit_ucast_iff)
qed

lemma per_byte_inj_crc: "compute_crc16_per_byte c d = compute_crc16_per_byte c' d \<Longrightarrow> c = c'"
proof -
  have inj: "(crc16_shift ^^ k) a = (crc16_shift ^^ k) b \<Longrightarrow> a = b" for k a b
    by (induction k arbitrary: a b) (auto dest: crc16_shift_inj)
  assume "compute_crc16_per_byte c d = compute_crc16_per_byte c' d"
  then have "c XOR push_bit 8 (ucast d) = c' XOR push_bit 8 (ucast d)"
    by (simp only: compute_crc16_per_byte_def crc16_bit_loop_funpow) (rule inj)
  then show ?thesis by (rule xor_cancel_right)
qed

lemma per_byte_inj_data: "compute_crc16_per_byte c d = compute_crc16_per_byte c d' \<Longrightarrow> d = d'"
proof -
  have inj: "(crc16_shift ^^ k) a = (crc16_shift ^^ k) b \<Longrightarrow> a = b" for k a b
    by (induction k arbitrary: a b) (auto dest: crc16_shift_inj)
  assume "compute_crc16_per_byte c d = compute_crc16_per_byte c d'"
  then have "c XOR push_bit 8 (ucast d) = c XOR push_bit 8 (ucast d')"
    by (simp only: compute_crc16_per_byte_def crc16_bit_loop_funpow) (rule inj)
  then have "push_bit 8 (ucast d :: uint16_t) = push_bit 8 (ucast d')"
    by (simp only: xor.commute [of c]) (rule xor_cancel_right)
  then show ?thesis by (rule byte_high_inj)
qed

lemma foldl_per_byte_inj:
  "foldl compute_crc16_per_byte c bs = foldl compute_crc16_per_byte c' bs \<Longrightarrow> c = c'"
  by (induction bs arbitrary: c c') (auto dest: per_byte_inj_crc)

lemma crc16_single_byte_change:
  assumes "i < length bs" and "v \<noteq> bs ! i"
  shows "crc16 (bs[i := v]) \<noteq> crc16 bs"
proof
  assume e: "crc16 (bs[i := v]) = crc16 bs"
  from assms(1) have bs: "bs = take i bs @ bs ! i # drop (Suc i) bs"
    by (simp add: id_take_nth_drop)
  from assms(1) have upd: "bs[i := v] = take i bs @ v # drop (Suc i) bs"
    by (simp add: upd_conv_take_nth_drop)
  let ?c = "foldl compute_crc16_per_byte CRC_INIT (take i bs)"
  have "foldl compute_crc16_per_byte (compute_crc16_per_byte ?c v) (drop (Suc i) bs) =
        foldl compute_crc16_per_byte (compute_crc16_per_byte ?c (bs ! i)) (drop (Suc i) bs)"
    using e by (subst (asm) (2) bs) (simp add: crc16_def upd)
  then have "compute_crc16_per_byte ?c v = compute_crc16_per_byte ?c (bs ! i)"
    by (rule foldl_per_byte_inj)
  then have "v = bs ! i" by (rule per_byte_inj_data)
  with assms(2) show False by simp
qed

lemma flip_bit_neq: "k < 8 \<Longrightarrow> b XOR 2 ^ k \<noteq> b" for b :: uint8_t
proof
  assume k: "k < 8" and e: "b XOR 2 ^ k = b"
  then have "bit (b XOR 2 ^ k) k = bit b k" by simp
  with k show False by (simp add: bit_xor_iff bit_exp_iff)
qed

section \<open>Closed forms of the serializer and the parser\<close>

lemma stored_size_le: "stored_size m n \<le> unat n"
  by (simp add: stored_size_def)

lemma fill_payload_eq: "fill_payload m src n pl = memcpy pl 0 src (stored_size m n)"
  by (simp add: fill_payload_def stored_size_def MSG_ID_TELEMETRY_def MSG_ID_BATTERY_def)

lemma length_frame_bytes:
  "unat (len (header F)) \<le> length (payload F) \<Longrightarrow>
   length (frame_bytes F) = FRAME_HEADER_SIZE + unat (len (header F))"
  by (simp add: frame_bytes_def FRAME_HEADER_SIZE_def)

lemma length_wire_of:
  "unat (len (header F)) \<le> length (payload F) \<Longrightarrow>
   length (wire_of F) = FRAME_SIZE (unat (len (header F)))"
  by (simp add: wire_of_def length_frame_bytes FRAME_SIZE_def FRAME_CRC_SIZE_def)

lemma serialize_frame_eq:
  assumes pl: "unat (len (header F)) \<le> length (payload F)"
    and sz: "FRAME_SIZE (unat (len (header F))) \<le> length buf"
  shows "serialize_frame F buf os =
     Some (ESP_OK, wire_of F @ drop (FRAME_SIZE (unat (len (header F)))) buf,
           (case os of None \<Rightarrow> None | Some v \<Rightarrow> Some (FRAME_SIZE (unat (len (header F))))))"
proof -
  let ?L = "unat (len (header F))"
  let ?m = "msg_id (header F)" and ?s = "seq (header F)" and ?l = "len (header F)"
  from sz have l3: "3 \<le> length buf" by (simp add: FRAME_SIZE_def FRAME_HEADER_SIZE_def)
  then obtain x0 x1 x2 rest where buf: "buf = x0 # x1 # x2 # rest"
    by (cases buf; cases "tl buf"; cases "tl (tl buf)") auto
  from sz buf have lr: "?L + 2 \<le> length rest"
    by (simp add: FRAME_SIZE_def FRAME_HEADER_SIZE_def FRAME_CRC_SIZE_def)
  then have "2 \<le> length (drop ?L rest)" by simp
  then obtain y0 y1 tl2 where rest: "drop ?L rest = y0 # y1 # tl2"
    by (cases "drop ?L rest"; cases "tl (drop ?L rest)") auto
  have tl2: "tl2 = drop (FRAME_SIZE ?L) buf"
  proof -
    have "drop (FRAME_SIZE ?L) buf = drop 2 (drop ?L rest)"
      by (simp add: buf FRAME_SIZE_def FRAME_HEADER_SIZE_def FRAME_CRC_SIZE_def eval_nat_numeral add.commute)
    then show ?thesis by (simp add: rest eval_nat_numeral)
  qed
  have w0: "wr buf 0 ?m = Some (?m # x1 # x2 # rest)"
    by (simp add: wr_def buf)
  have w1: "wr (?m # x1 # x2 # rest) 1 ?s = Some (?m # ?s # x2 # rest)"
    by (simp add: wr_def)
  have w2: "wr (?m # ?s # x2 # rest) 2 ?l = Some (?m # ?s # ?l # rest)"
    by (simp add: wr_def eval_nat_numeral)
  let ?b4 = "frame_bytes F @ y0 # y1 # tl2"
  have mc: "memcpy (?m # ?s # ?l # rest) FRAME_HEADER_SIZE (payload F) ?L = Some ?b4"
  proof -
    have "drop (FRAME_HEADER_SIZE + ?L) (?m # ?s # ?l # rest) = drop ?L rest"
      by (simp add: FRAME_HEADER_SIZE_def eval_nat_numeral)
    moreover have "take FRAME_HEADER_SIZE (?m # ?s # ?l # rest) = [?m, ?s, ?l]"
      by (simp add: FRAME_HEADER_SIZE_def eval_nat_numeral)
    ultimately show ?thesis
      using pl lr by (simp add: memcpy_def frame_bytes_def rest FRAME_HEADER_SIZE_def)
  qed
  have lfb: "length (frame_bytes F) = FRAME_HEADER_SIZE + ?L"
    using pl by (rule length_frame_bytes)
  have cr: "compute_frame_crc ?b4 ?L = Some (crc16 (frame_bytes F))"
  proof -
    have "FRAME_HEADER_SIZE + ?L \<le> length ?b4" using lfb by simp
    from compute_frame_crc_eq [OF this] show ?thesis using lfb by simp
  qed
  let ?c = "crc16 (frame_bytes F)"
  have w3: "wr ?b4 (FRAME_HEADER_SIZE + ?L) (crc_lo ?c) = Some (frame_bytes F @ crc_lo ?c # y1 # tl2)"
    using lfb by (simp add: wr_def list_update_append flip: lfb)
  have w4: "wr (frame_bytes F @ crc_lo ?c # y1 # tl2) (FRAME_HEADER_SIZE + ?L + 1) (crc_hi ?c)
      = Some (frame_bytes F @ crc_lo ?c # crc_hi ?c # tl2)"
    using lfb by (simp add: wr_def list_update_append flip: lfb)
  have "serialize_frame F buf os =
      Some (ESP_OK, frame_bytes F @ crc_lo ?c # crc_hi ?c # tl2,
            (case os of None \<Rightarrow> None | Some v \<Rightarrow> Some (FRAME_SIZE ?L)))"
    unfolding serialize_frame_def Let_def
    by (simp only: sz w0 w1 w2 mc cr w3 [unfolded crc_lo_def] w4 [unfolded crc_lo_def crc_hi_def]
        Option.bind.simps not_True_eq_False if_False crc_lo_def crc_hi_def)
  then show ?thesis
    by (simp add: wire_of_def tl2)
qed

lemma beam_serialize_frame_eq:
  assumes "unat (len (header F)) \<le> MAX_PAYLOAD_SIZE"
    and "unat (len (header F)) \<le> length (payload F)"
    and "FRAME_SIZE (unat (len (header F))) \<le> length buf"
  shows "beam_serialize_frame (Some F) (Some buf) os =
     Some (ESP_OK, Some (wire_of F @ drop (FRAME_SIZE (unat (len (header F)))) buf),
           (case os of None \<Rightarrow> None | Some v \<Rightarrow> Some (FRAME_SIZE (unat (len (header F))))))"
  using assms by (simp add: beam_serialize_frame_def serialize_frame_eq)

lemma parse_too_short:
  "length data < FRAME_HEADER_SIZE \<Longrightarrow>
   parse_into_frame_with engine data out = Some (ESP_ERR_INVALID_SIZE, out)"
  by (simp add: parse_into_frame_with_def)

lemma parse_len_exceeds:
  "FRAME_HEADER_SIZE \<le> length data \<Longrightarrow> MAX_PAYLOAD_SIZE < unat (data ! 2) \<Longrightarrow>
   parse_into_frame_with engine data out = Some (ESP_ERR_INVALID_SIZE, out)"
  by (simp add: parse_into_frame_with_def rd_def FRAME_HEADER_SIZE_def)

lemma parse_buffer_short:
  "FRAME_HEADER_SIZE \<le> length data \<Longrightarrow> length data < FRAME_SIZE (unat (data ! 2)) \<Longrightarrow>
   parse_into_frame_with engine data out = Some (ESP_ERR_INVALID_SIZE, out)"
  by (simp add: parse_into_frame_with_def rd_def FRAME_HEADER_SIZE_def)

lemma parse_checked:
  assumes sz: "FRAME_SIZE (unat (data ! 2)) \<le> length data"
    and mx: "unat (data ! 2) \<le> MAX_PAYLOAD_SIZE"
    and po: "unat (data ! 2) \<le> length (payload out)"
  shows "parse_into_frame data out =
     (if crc16 (take (FRAME_HEADER_SIZE + unat (data ! 2)) data) = received_crc_of data
      then Some (ESP_OK, parsed_frame data out)
      else Some (ESP_ERR_INVALID_CRC, out))"
proof -
  let ?n = "unat (data ! 2)"
  from sz have hs: "FRAME_HEADER_SIZE + ?n \<le> length data"
    and r2: "rd data 2 = Some (data ! 2)" and r0: "rd data 0 = Some (data ! 0)"
    and r1: "rd data 1 = Some (data ! 1)"
    and rlo: "rd data (FRAME_HEADER_SIZE + ?n) = Some (data ! (FRAME_HEADER_SIZE + ?n))"
    and rhi: "rd data (FRAME_HEADER_SIZE + ?n + 1) = Some (data ! (FRAME_HEADER_SIZE + ?n + 1))"
    and h3: "FRAME_HEADER_SIZE \<le> length data"
    by (auto simp add: rd_def FRAME_SIZE_def FRAME_HEADER_SIZE_def FRAME_CRC_SIZE_def)
  have k: "stored_size (data ! 0) (data ! 2) \<le> ?n" by (rule stored_size_le)
  have fp: "fill_payload (data ! 0) (drop FRAME_HEADER_SIZE data) (data ! 2) (payload out) =
      Some (take (stored_size (data ! 0) (data ! 2)) (drop FRAME_HEADER_SIZE data)
            @ drop (stored_size (data ! 0) (data ! 2)) (payload out))"
    using k po hs by (simp add: fill_payload_eq memcpy_def)
  from rhi have rhi': "rd data (Suc (FRAME_HEADER_SIZE + ?n)) = Some (data ! Suc (FRAME_HEADER_SIZE + ?n))"
    by simp
  from r1 have r1': "rd data (Suc 0) = Some (data ! Suc 0)" by simp
  show ?thesis
    unfolding parse_into_frame_def parse_into_frame_with_def
    using sz mx h3
    by (simp add: r0 r1' r2 rlo rhi' compute_frame_crc_eq [OF hs] fp Let_def
        parsed_frame_def received_crc_of_def le16_def)
qed

lemma unat_flip_clear_bit:
  fixes b :: uint8_t
  assumes "k < 8" and "\<not> bit b k"
  shows "unat (b XOR 2 ^ k) = unat b + 2 ^ k"
proof -
  have "unat (b XOR 2 ^ k) = unat b XOR 2 ^ k"
    using assms(1) by (intro bit_eqI) (auto simp add: bit_unsigned_iff bit_xor_iff bit_exp_iff)
  moreover have "\<not> bit (unat b) k"
    using assms by (simp add: bit_unsigned_iff)
  then have "unat b AND 2 ^ k = 0"
    by (simp add: and_exp_eq_0_iff_not_bit)
  then have "unat b + 2 ^ k = unat b XOR 2 ^ k"
    by (rule disjunctive_add_eq_xor)
  ultimately show ?thesis by simp
qed

lemma beam_parse_eq:
  assumes po: "MAX_PAYLOAD_SIZE \<le> length (payload out)"
  shows "beam_parse_into_frame (Some d) (Some out) =
     Some (if length d < BEAM_FRAME_MIN_SIZE then (ESP_ERR_INVALID_SIZE, Some out)
           else if MAX_PAYLOAD_SIZE < unat (d ! 2) then (ESP_ERR_INVALID_SIZE, Some out)
           else if length d < FRAME_SIZE (unat (d ! 2)) then (ESP_ERR_INVALID_SIZE, Some out)
           else if crc16 (take (FRAME_HEADER_SIZE + unat (d ! 2)) d) \<noteq> received_crc_of d
             then (ESP_ERR_INVALID_CRC, Some out)
           else (ESP_OK, Some (parsed_frame d out)))"
proof (cases "length d < BEAM_FRAME_MIN_SIZE")
  case True
  then show ?thesis by (simp add: beam_parse_into_frame_def)
next
  case False
  then have h3: "FRAME_HEADER_SIZE \<le> length d"
    by (simp add: BEAM_FRAME_MIN_SIZE_def FRAME_HEADER_SIZE_def)
  show ?thesis
  proof (cases "MAX_PAYLOAD_SIZE < unat (d ! 2)")
    case True
    with False parse_len_exceeds [OF h3 True] show ?thesis
      by (simp add: beam_parse_into_frame_def parse_into_frame_def)
  next
    case mx: False
    show ?thesis
    proof (cases "length d < FRAME_SIZE (unat (d ! 2))")
      case True
      with False mx parse_buffer_short [OF h3 True] show ?thesis
        by (simp add: beam_parse_into_frame_def parse_into_frame_def)
    next
      case sz: False
      from mx po have "unat (d ! 2) \<le> length (payload out)" by simp
      with sz mx have "parse_into_frame d out =
         (if crc16 (take (FRAME_HEADER_SIZE + unat (d ! 2)) d) = received_crc_of d
          then Some (ESP_OK, parsed_frame d out)
          else Some (ESP_ERR_INVALID_CRC, out))"
        by (intro parse_checked) simp_all
      with False mx sz show ?thesis
        by (simp add: beam_parse_into_frame_def)
    qed
  qed
qed

lemma wire_of_nth:
  "wire_of F ! 0 = msg_id (header F)" "wire_of F ! 1 = seq (header F)" "wire_of F ! 2 = len (header F)"
  by (simp_all add: wire_of_def frame_bytes_def eval_nat_numeral)

lemma wire_of_append_nth2: "(wire_of F @ extra) ! 2 = len (header F)"
  by (simp add: wire_of_def frame_bytes_def eval_nat_numeral)

lemma take_wire_of:
  assumes "unat (len (header F)) \<le> length (payload F)"
  shows "take (FRAME_HEADER_SIZE + unat (len (header F))) (wire_of F @ extra) = frame_bytes F"
  using length_frame_bytes [OF assms] by (simp add: wire_of_def)

lemma received_crc_of_wire:
  assumes "unat (len (header F)) \<le> length (payload F)"
  shows "received_crc_of (wire_of F @ extra) = crc16 (frame_bytes F)"
proof -
  let ?c = "crc16 (frame_bytes F)"
  have l: "length (frame_bytes F) = FRAME_HEADER_SIZE + unat (len (header F))"
    using assms by (rule length_frame_bytes)
  have w: "wire_of F @ extra = frame_bytes F @ crc_lo ?c # crc_hi ?c # extra"
    by (simp add: wire_of_def)
  have "(wire_of F @ extra) ! (FRAME_HEADER_SIZE + unat (len (header F))) = crc_lo ?c"
    unfolding w l [symmetric] by (simp add: nth_append)
  moreover have "(wire_of F @ extra) ! (FRAME_HEADER_SIZE + unat (len (header F)) + 1) = crc_hi ?c"
    unfolding w l [symmetric] by (simp add: nth_append)
  ultimately show ?thesis
    by (simp add: received_crc_of_def wire_of_append_nth2 le16_crc_bytes)
qed

lemma parsed_frame_wire:
  assumes "unat (len (header F)) \<le> length (payload F)"
  shows "parsed_frame (wire_of F @ extra) out =
     \<lparr>header = header F,
      payload = take (stored_size (msg_id (header F)) (len (header F))) (payload F)
                @ drop (stored_size (msg_id (header F)) (len (header F))) (payload out),
      crc = crc16 (frame_bytes F)\<rparr>"
proof -
  let ?k = "stored_size (msg_id (header F)) (len (header F))"
  have k: "?k \<le> unat (len (header F))" by (rule stored_size_le)
  have "drop FRAME_HEADER_SIZE (wire_of F @ extra) =
      take (unat (len (header F))) (payload F) @ crc_lo (crc16 (frame_bytes F)) # crc_hi (crc16 (frame_bytes F)) # extra"
    by (simp add: wire_of_def frame_bytes_def FRAME_HEADER_SIZE_def eval_nat_numeral)
  then have "take ?k (drop FRAME_HEADER_SIZE (wire_of F @ extra)) = take ?k (payload F)"
    using k assms by (simp add: min_def)
  moreover have "(wire_of F @ extra) ! 0 = msg_id (header F)" "(wire_of F @ extra) ! 1 = seq (header F)"
    by (simp_all add: wire_of_def frame_bytes_def)
  ultimately show ?thesis
    using received_crc_of_wire [OF assms]
    by (simp add: parsed_frame_def wire_of_append_nth2)
qed

lemma beam_parse_wire:
  assumes mx: "unat (len (header F)) \<le> MAX_PAYLOAD_SIZE"
    and pl: "unat (len (header F)) \<le> length (payload F)"
    and po: "MAX_PAYLOAD_SIZE \<le> length (payload out)"
  shows "beam_parse_into_frame (Some (wire_of F @ extra)) (Some out) =
     Some (ESP_OK, Some
       \<lparr>header = header F,
        payload = take (stored_size (msg_id (header F)) (len (header F))) (payload F)
                  @ drop (stored_size (msg_id (header F)) (len (header F))) (payload out),
        crc = crc16 (frame_bytes F)\<rparr>)"
proof -
  define d where "d = wire_of F @ extra"
  have l: "length (wire_of F) = FRAME_SIZE (unat (len (header F)))"
    using pl by (rule length_wire_of)
  have d2: "d ! 2 = len (header F)"
    by (simp add: d_def wire_of_append_nth2)
  have "\<not> length d < BEAM_FRAME_MIN_SIZE"
    using l by (simp add: d_def FRAME_SIZE_def FRAME_HEADER_SIZE_def FRAME_CRC_SIZE_def BEAM_FRAME_MIN_SIZE_def)
  moreover have "\<not> length d < FRAME_SIZE (unat (d ! 2))"
    using l by (simp add: d2) (simp add: d_def)
  moreover have "crc16 (take (FRAME_HEADER_SIZE + unat (d ! 2)) d) = received_crc_of d"
    unfolding d2 unfolding d_def by (simp only: take_wire_of [OF pl] received_crc_of_wire [OF pl])
  moreover have "parsed_frame d out = \<lparr>header = header F,
        payload = take (stored_size (msg_id (header F)) (len (header F))) (payload F)
                  @ drop (stored_size (msg_id (header F)) (len (header F))) (payload out),
        crc = crc16 (frame_bytes F)\<rparr>"
    unfolding d_def by (rule parsed_frame_wire [OF pl])
  ultimately have "beam_parse_into_frame (Some d) (Some out) =
     Some (ESP_OK, Some
       \<lparr>header = header F,
        payload = take (stored_size (msg_id (header F)) (len (header F))) (payload F)
                  @ drop (stored_size (msg_id (header F)) (len (header F))) (payload out),
        crc = crc16 (frame_bytes F)\<rparr>)"
    using mx by (simp add: beam_parse_eq [OF po] d2)
  then show ?thesis by (simp only: d_def)
qed

section \<open>Properties of the codec\<close>

lemma serialize_ok_D:
  assumes "beam_serialize_frame (Some F) (Some buf) os = Some (ESP_OK, r, os')"
  shows "unat (len (header F)) \<le> MAX_PAYLOAD_SIZE"
    and "unat (len (header F)) \<le> length (payload F)"
    and "FRAME_SIZE (unat (len (header F))) \<le> length buf"
proof -
  from assms show mx: "unat (len (header F)) \<le> MAX_PAYLOAD_SIZE"
    by (auto simp add: beam_serialize_frame_def split: if_splits)
  with assms obtain b where s: "serialize_frame F buf os = Some (ESP_OK, b, os')"
    by (auto simp add: beam_serialize_frame_def)
  then have sz: "FRAME_SIZE (unat (len (header F))) \<le> length buf"
    by (auto simp add: serialize_frame_def Let_def split: if_splits)
  from s sz show "unat (len (header F)) \<le> length (payload F)"
    by (auto simp add: serialize_frame_def Let_def bind_eq_Some_conv memcpy_def split: if_splits)
  from sz show "FRAME_SIZE (unat (len (header F))) \<le> length buf" .
qed

lemma serialize_ok_wire:
  assumes "beam_serialize_frame (Some F) (Some buf) os = Some (ESP_OK, r, os')"
  shows "r = Some (wire_of F @ drop (FRAME_SIZE (unat (len (header F)))) buf)"
    and "os' = (case os of None \<Rightarrow> None | Some v \<Rightarrow> Some (FRAME_SIZE (unat (len (header F)))))"
  using assms beam_serialize_frame_eq [OF serialize_ok_D [OF assms], of os] by simp_all

lemma beam_parse_short:
  assumes "length d < BEAM_FRAME_MIN_SIZE \<or> length d < FRAME_SIZE (unat (d ! 2))"
  shows "beam_parse_into_frame (Some d) (Some out) = Some (ESP_ERR_INVALID_SIZE, Some out)"
proof (cases "length d < BEAM_FRAME_MIN_SIZE")
  case True
  then show ?thesis by (simp add: beam_parse_into_frame_def)
next
  case False
  then have h3: "FRAME_HEADER_SIZE \<le> length d"
    by (simp add: BEAM_FRAME_MIN_SIZE_def FRAME_HEADER_SIZE_def)
  from False assms have "length d < FRAME_SIZE (unat (d ! 2))" by simp
  from parse_buffer_short [OF h3 this] False show ?thesis
    by (simp add: beam_parse_into_frame_def parse_into_frame_def)
qed

text \<open>
  Claim C1 (round trip), as amended. For every frame \<open>F\<close> with
  \<open>len \<le> MAX_PAYLOAD_SIZE\<close>, serializing into a buffer of sufficient capacity and
  parsing that buffer both succeed; the parsed frame has the header of \<open>F\<close>, its
  \<open>crc\<close> is the checksum found on the wire, and its first \<open>k\<close> payload bytes are
  those of \<open>F\<close>, where \<open>k = stored_size msg_id len\<close> is 12 for Telemetry with
  \<open>len \<ge> 12\<close>, 5 for Battery with \<open>len \<ge> 5\<close>, and \<open>len\<close> otherwise. The
  payload bytes from \<open>k\<close> on are those the output object held before the call.
\<close>

theorem roundtrip_stored_prefix:
  assumes mx: "unat (len (header F)) \<le> MAX_PAYLOAD_SIZE"
    and pf: "length (payload F) = MAX_PAYLOAD_SIZE"
    and po: "length (payload out) = MAX_PAYLOAD_SIZE"
    and sz: "FRAME_SIZE (unat (len (header F))) \<le> length buf"
  shows "\<exists>wire f.
     beam_serialize_frame (Some F) (Some buf) os =
       Some (ESP_OK, Some wire,
             (case os of None \<Rightarrow> None | Some v \<Rightarrow> Some (FRAME_SIZE (unat (len (header F)))))) \<and>
     beam_parse_into_frame (Some wire) (Some out) = Some (ESP_OK, Some f) \<and>
     header f = header F \<and>
     crc f = le16 (wire ! (FRAME_HEADER_SIZE + unat (len (header F))))
                  (wire ! (FRAME_HEADER_SIZE + unat (len (header F)) + 1)) \<and>
     take (stored_size (msg_id (header F)) (len (header F))) (payload f) =
       take (stored_size (msg_id (header F)) (len (header F))) (payload F) \<and>
     drop (stored_size (msg_id (header F)) (len (header F))) (payload f) =
       drop (stored_size (msg_id (header F)) (len (header F))) (payload out)"
proof -
  let ?L = "unat (len (header F))"
  let ?k = "stored_size (msg_id (header F)) (len (header F))"
  let ?wire = "wire_of F @ drop (FRAME_SIZE ?L) buf"
  let ?f = "\<lparr>header = header F, payload = take ?k (payload F) @ drop ?k (payload out),
            crc = crc16 (frame_bytes F)\<rparr>"
  from mx pf have pl: "?L \<le> length (payload F)" by simp
  from po have po': "MAX_PAYLOAD_SIZE \<le> length (payload out)" by simp
  have k: "?k \<le> ?L" by (rule stored_size_le)
  have ser: "beam_serialize_frame (Some F) (Some buf) os =
      Some (ESP_OK, Some ?wire, (case os of None \<Rightarrow> None | Some v \<Rightarrow> Some (FRAME_SIZE ?L)))"
    using mx pl sz by (rule beam_serialize_frame_eq)
  have par: "beam_parse_into_frame (Some ?wire) (Some out) = Some (ESP_OK, Some ?f)"
    using mx pl po' by (rule beam_parse_wire)
  have rc: "crc ?f = le16 (?wire ! (FRAME_HEADER_SIZE + ?L)) (?wire ! (FRAME_HEADER_SIZE + ?L + 1))"
    using received_crc_of_wire [OF pl, of "drop (FRAME_SIZE ?L) buf"]
    by (simp add: received_crc_of_def wire_of_append_nth2)
  have tk: "take ?k (payload ?f) = take ?k (payload F)"
    using k pl by simp
  have dr: "drop ?k (payload ?f) = drop ?k (payload out)"
    using k pl by simp
  from ser par rc tk dr show ?thesis
    by (intro exI [of _ ?wire] exI [of _ ?f] conjI) simp_all
qed

theorem roundtrip_stored_prefix_witness:
  "beam_serialize_frame (Some F1) (Some (replicate 18 0)) None = Some (ESP_OK, Some W1, None) \<and>
   (\<exists>f. beam_parse_into_frame (Some W1) (Some out0) = Some (ESP_OK, Some f) \<and>
        header f = header F1 \<and> crc f = le16 (W1 ! 16) (W1 ! 17) \<and>
        take 12 (payload f) = take 12 (payload F1) \<and> drop 12 (payload f) = drop 12 (payload out0))"
proof -
  have mx: "unat (len (header F1)) \<le> MAX_PAYLOAD_SIZE"
    and pf: "length (payload F1) = MAX_PAYLOAD_SIZE"
    and po: "length (payload out0) = MAX_PAYLOAD_SIZE"
    and sz: "FRAME_SIZE (unat (len (header F1))) \<le> length (replicate 18 (0 :: uint8_t))"
    by (simp_all add: F1_def out0_def MAX_PAYLOAD_SIZE_def FRAME_SIZE_def FRAME_HEADER_SIZE_def
        FRAME_CRC_SIZE_def)
  have ser: "beam_serialize_frame (Some F1) (Some (replicate 18 0)) None = Some (ESP_OK, Some W1, None)"
    by code_simp
  have k: "stored_size (msg_id (header F1)) (len (header F1)) = 12"
    by (simp add: stored_size_def F1_def MSG_ID_TELEMETRY_def sizeof_telemetry_def)
  have n: "FRAME_HEADER_SIZE + unat (len (header F1)) = 16"
    by (simp add: F1_def FRAME_HEADER_SIZE_def)
  from roundtrip_stored_prefix [OF mx pf po sz, of None] ser show ?thesis
    by (simp only: k n) auto
qed

text \<open>
  The claim as stated fails: a Telemetry frame with 13 payload bytes is serialized and
  parsed successfully, but the thirteenth payload byte of the result is the one the output
  object held before, not the one of the frame.
\<close>

theorem roundtrip_counterexample:
  "beam_serialize_frame (Some F1) (Some (replicate 18 0)) None = Some (ESP_OK, Some W1, None) \<and>
   beam_parse_into_frame (Some W1) (Some out0) = Some (ESP_OK, Some G1) \<and>
   unat (len (header F1)) = 13 \<and> payload F1 ! 12 = 13 \<and> payload G1 ! 12 = 0 \<and>
   take 13 (payload G1) \<noteq> take 13 (payload F1)"
  by code_simp

text \<open>
  Claim C3 (payload dispatcher). Called as the parser calls it (declared length at most
  \<open>MAX_PAYLOAD_SIZE\<close>, that many source bytes present, the union being
  \<open>MAX_PAYLOAD_SIZE\<close> bytes), \<open>fill_payload\<close> always returns, staying inside the
  union. For Telemetry with at least 12 bytes it fills the typed member from the first 12
  source bytes, for Battery with at least 5 bytes from the first 5; for a known category
  with fewer bytes and for every other category it stores all \<open>len\<close> bytes in
  \<open>raw\<close>. The witness includes Telemetry with length 4: exactly the four raw bytes
  are stored.
\<close>

theorem fill_payload_dispatch:
  assumes "unat n \<le> MAX_PAYLOAD_SIZE" and "unat n \<le> length src"
    and "length pl = MAX_PAYLOAD_SIZE"
  shows "(\<exists>pl'. fill_payload m src n pl = Some pl' \<and> length pl' = MAX_PAYLOAD_SIZE) \<and>
     (m = MSG_ID_TELEMETRY \<and> sizeof_telemetry \<le> unat n \<longrightarrow>
        fill_payload m src n pl = Some (take sizeof_telemetry src @ drop sizeof_telemetry pl)) \<and>
     (m = MSG_ID_BATTERY \<and> sizeof_battery \<le> unat n \<longrightarrow>
        fill_payload m src n pl = Some (take sizeof_battery src @ drop sizeof_battery pl)) \<and>
     (m = MSG_ID_TELEMETRY \<and> unat n < sizeof_telemetry \<or>
      m = MSG_ID_BATTERY \<and> unat n < sizeof_battery \<or>
      m \<noteq> MSG_ID_TELEMETRY \<and> m \<noteq> MSG_ID_BATTERY \<longrightarrow>
        fill_payload m src n pl = Some (take (unat n) src @ drop (unat n) pl))"
  using assms
  by (auto simp add: fill_payload_def memcpy_def MSG_ID_TELEMETRY_def MSG_ID_BATTERY_def
      sizeof_telemetry_def sizeof_battery_def MAX_PAYLOAD_SIZE_def)

theorem fill_payload_dispatch_witness:
  "fill_payload MSG_ID_TELEMETRY [1, 2, 3, 4] 4 (replicate 200 0) = Some ([1, 2, 3, 4] @ replicate 196 0) \<and>
   fill_payload MSG_ID_BATTERY [1, 2, 3, 4, 5, 6, 7] 7 (replicate 200 0)
     = Some ([1, 2, 3, 4, 5] @ replicate 195 0) \<and>
   fill_payload 9 [1, 2, 3, 4, 5, 6, 7] 7 (replicate 200 0)
     = Some ([1, 2, 3, 4, 5, 6, 7] @ replicate 193 0)"
proof -
  have a: "unat (4 :: uint8_t) \<le> MAX_PAYLOAD_SIZE" "unat (4 :: uint8_t) \<le> length [1, 2, 3, 4 :: uint8_t]"
    and b: "unat (7 :: uint8_t) \<le> MAX_PAYLOAD_SIZE"
      "unat (7 :: uint8_t) \<le> length [1, 2, 3, 4, 5, 6, 7 :: uint8_t]"
    and c: "length (replicate 200 (0 :: uint8_t)) = MAX_PAYLOAD_SIZE"
    by (simp_all add: MAX_PAYLOAD_SIZE_def)
  from fill_payload_dispatch [OF a c, of MSG_ID_TELEMETRY]
    fill_payload_dispatch [OF b c, of MSG_ID_BATTERY]
    fill_payload_dispatch [OF b c, of 9]
  show ?thesis
    by (simp add: MSG_ID_TELEMETRY_def MSG_ID_BATTERY_def sizeof_telemetry_def sizeof_battery_def)
qed

text \<open>
  Claim C4 (truncation). Every proper prefix of a serialized frame is rejected with
  \<open>ESP_ERR_INVALID_SIZE\<close> (hence never with \<open>ESP_ERR_INVALID_CRC\<close>), and the
  output frame is left as it was.
\<close>

theorem truncated_frame_invalid_size:
  assumes ser: "beam_serialize_frame (Some F) (Some buf) os = Some (ESP_OK, Some wire, os')"
    and k: "k < FRAME_SIZE (unat (len (header F)))"
  shows "beam_parse_into_frame (Some (take k wire)) (Some out) = Some (ESP_ERR_INVALID_SIZE, Some out)"
proof -
  let ?L = "unat (len (header F))"
  from serialize_ok_wire(1) [OF ser] have w: "wire = wire_of F @ drop (FRAME_SIZE ?L) buf"
    by simp
  have lw: "length (wire_of F) = FRAME_SIZE ?L"
    using serialize_ok_D(2) [OF ser] by (rule length_wire_of)
  with k w have lt: "length (take k wire) = k" by simp
  show ?thesis
  proof (cases "k < BEAM_FRAME_MIN_SIZE")
    case True
    with lt show ?thesis by (intro beam_parse_short) simp
  next
    case False
    then have "2 < k" by (simp add: BEAM_FRAME_MIN_SIZE_def)
    then have "take k wire ! 2 = wire ! 2" by simp
    then have "take k wire ! 2 = len (header F)"
      by (simp only: w wire_of_append_nth2)
    with lt k show ?thesis by (intro beam_parse_short) simp
  qed
qed

theorem truncated_frame_invalid_size_witness:
  "beam_serialize_frame (Some F1) (Some (replicate 18 0)) None = Some (ESP_OK, Some W1, None) \<and>
   beam_parse_into_frame (Some (take 17 W1)) (Some out0) = Some (ESP_ERR_INVALID_SIZE, Some out0) \<and>
   beam_parse_into_frame (Some (take 4 W1)) (Some out0) = Some (ESP_ERR_INVALID_SIZE, Some out0) \<and>
   beam_parse_into_frame (Some (take 0 W1)) (Some out0) = Some (ESP_ERR_INVALID_SIZE, Some out0)"
proof -
  have ser: "beam_serialize_frame (Some F1) (Some (replicate 18 0)) None = Some (ESP_OK, Some W1, None)"
    by code_simp
  have k: "17 < FRAME_SIZE (unat (len (header F1)))" "4 < FRAME_SIZE (unat (len (header F1)))"
    "0 < FRAME_SIZE (unat (len (header F1)))"
    by (simp_all add: F1_def FRAME_SIZE_def FRAME_HEADER_SIZE_def FRAME_CRC_SIZE_def)
  from ser truncated_frame_invalid_size [OF ser k(1), of out0]
    truncated_frame_invalid_size [OF ser k(2), of out0]
    truncated_frame_invalid_size [OF ser k(3), of out0]
  show ?thesis by (intro conjI)
qed

lemma changed_byte_invalid_crc:
  assumes po: "MAX_PAYLOAD_SIZE \<le> length (payload out)"
    and ok: "beam_parse_into_frame (Some d) (Some out) = Some (ESP_OK, r)"
    and i: "i < FRAME_SIZE (unat (d ! 2))" and i2: "i \<noteq> 2" and v: "v \<noteq> d ! i"
  shows "beam_parse_into_frame (Some (d[i := v])) (Some out) = Some (ESP_ERR_INVALID_CRC, Some out)"
proof -
  let ?n = "unat (d ! 2)"
  let ?d' = "d[i := v]"
  from ok have c: "\<not> length d < BEAM_FRAME_MIN_SIZE" "\<not> MAX_PAYLOAD_SIZE < ?n"
    "\<not> length d < FRAME_SIZE ?n"
    "crc16 (take (FRAME_HEADER_SIZE + ?n) d) = received_crc_of d"
    unfolding beam_parse_eq [OF po] by (auto split: if_splits)
  have d2: "?d' ! 2 = d ! 2" using i2 by simp
  from c(3) have len: "FRAME_HEADER_SIZE + ?n + 1 < length d"
    by (simp add: FRAME_SIZE_def FRAME_CRC_SIZE_def)
  have ne: "crc16 (take (FRAME_HEADER_SIZE + ?n) ?d') \<noteq> received_crc_of ?d'"
  proof (cases "i < FRAME_HEADER_SIZE + ?n")
    case True
    then have "take (FRAME_HEADER_SIZE + ?n) ?d' = (take (FRAME_HEADER_SIZE + ?n) d)[i := v]"
      by (simp add: take_update_swap)
    moreover have "crc16 ((take (FRAME_HEADER_SIZE + ?n) d)[i := v]) \<noteq> crc16 (take (FRAME_HEADER_SIZE + ?n) d)"
      using True len v by (intro crc16_single_byte_change) simp_all
    moreover have "received_crc_of ?d' = received_crc_of d"
      using True by (simp add: received_crc_of_def d2)
    ultimately show ?thesis using c(4) by simp
  next
    case False
    then have tk: "take (FRAME_HEADER_SIZE + ?n) ?d' = take (FRAME_HEADER_SIZE + ?n) d"
      by simp
    from False i have "i = FRAME_HEADER_SIZE + ?n \<or> i = FRAME_HEADER_SIZE + ?n + 1"
      by (auto simp add: FRAME_SIZE_def FRAME_CRC_SIZE_def)
    then have "?d' ! (FRAME_HEADER_SIZE + ?n) \<noteq> d ! (FRAME_HEADER_SIZE + ?n) \<or>
        ?d' ! (FRAME_HEADER_SIZE + ?n + 1) \<noteq> d ! (FRAME_HEADER_SIZE + ?n + 1)"
      using v len by auto
    then have "received_crc_of ?d' \<noteq> received_crc_of d"
      unfolding received_crc_of_def d2 by (auto dest: le16_inj)
    with tk c(4) show ?thesis by simp
  qed
  from c d2 ne show ?thesis
    unfolding beam_parse_eq [OF po] by simp
qed

text \<open>
  Claim C5 (corruption detection), as amended. In a serialized frame, flipping any single
  bit of any byte other than the length byte (index 2) makes the parser return
  \<open>ESP_ERR_INVALID_CRC\<close>; flipping a bit of the length byte from 0 to 1 makes it
  return \<open>ESP_ERR_INVALID_SIZE\<close>, because the length checks come before the CRC
  check. In both cases the output frame is untouched. Nothing is promised for a flip that
  clears a bit of the length byte.
\<close>

theorem single_bit_flip_rejected:
  assumes ser: "beam_serialize_frame (Some F) (Some buf) os = Some (ESP_OK, Some wire, os')"
    and po: "length (payload out) = MAX_PAYLOAD_SIZE"
    and i: "i < FRAME_SIZE (unat (len (header F)))" and k: "k < 8"
  shows "(i \<noteq> 2 \<longrightarrow>
            beam_parse_into_frame
              (Some ((take (FRAME_SIZE (unat (len (header F)))) wire)[i := wire ! i XOR 2 ^ k]))
              (Some out) = Some (ESP_ERR_INVALID_CRC, Some out)) \<and>
         (i = 2 \<and> \<not> bit (wire ! 2) k \<longrightarrow>
            beam_parse_into_frame
              (Some ((take (FRAME_SIZE (unat (len (header F)))) wire)[i := wire ! i XOR 2 ^ k]))
              (Some out) = Some (ESP_ERR_INVALID_SIZE, Some out))"
proof -
  let ?L = "unat (len (header F))"
  note D = serialize_ok_D [OF ser]
  from po have po': "MAX_PAYLOAD_SIZE \<le> length (payload out)" by simp
  have lw: "length (wire_of F) = FRAME_SIZE ?L"
    using D(2) by (rule length_wire_of)
  from serialize_ok_wire(1) [OF ser] have w: "wire = wire_of F @ drop (FRAME_SIZE ?L) buf"
    by simp
  have tw: "take (FRAME_SIZE ?L) wire = wire_of F"
    using lw by (simp add: w)
  have wi: "wire ! i = wire_of F ! i"
    using i lw by (simp add: w nth_append)
  have valid: "beam_parse_into_frame (Some (wire_of F)) (Some out) =
      Some (ESP_OK, Some \<lparr>header = header F,
        payload = take (stored_size (msg_id (header F)) (len (header F))) (payload F)
                  @ drop (stored_size (msg_id (header F)) (len (header F))) (payload out),
        crc = crc16 (frame_bytes F)\<rparr>)"
    using beam_parse_wire [OF D(1) D(2) po', of "[]"] by simp
  have w2: "wire_of F ! 2 = len (header F)" by (rule wire_of_nth)
  show ?thesis
  proof (intro conjI impI)
    assume "i \<noteq> 2"
    moreover have "wire_of F ! i XOR 2 ^ k \<noteq> wire_of F ! i"
      using k by (rule flip_bit_neq)
    moreover have "i < FRAME_SIZE (unat (wire_of F ! 2))"
      using i by (simp add: w2)
    ultimately show "beam_parse_into_frame
        (Some ((take (FRAME_SIZE ?L) wire)[i := wire ! i XOR 2 ^ k])) (Some out) =
        Some (ESP_ERR_INVALID_CRC, Some out)"
      unfolding tw wi using changed_byte_invalid_crc [OF po' valid] by simp
  next
    assume a: "i = 2 \<and> \<not> bit (wire ! 2) k"
    then have i2: "i = 2" and nb: "\<not> bit (len (header F)) k"
      using wi w2 by simp_all
    let ?d = "(wire_of F)[2 := len (header F) XOR 2 ^ k]"
    have "2 < length (wire_of F)"
      using lw by (simp add: FRAME_SIZE_def FRAME_HEADER_SIZE_def)
    then have "unat (?d ! 2) = ?L + 2 ^ k"
      using unat_flip_clear_bit [OF k nb] by simp
    then have "length ?d < FRAME_SIZE (unat (?d ! 2))"
      using lw by (simp add: FRAME_SIZE_def)
    then have "beam_parse_into_frame (Some ?d) (Some out) = Some (ESP_ERR_INVALID_SIZE, Some out)"
      by (intro beam_parse_short) simp
    then show "beam_parse_into_frame
        (Some ((take (FRAME_SIZE ?L) wire)[i := wire ! i XOR 2 ^ k])) (Some out) =
        Some (ESP_ERR_INVALID_SIZE, Some out)"
      using wi w2 unfolding tw i2 by simp
  qed
qed

theorem single_bit_flip_rejected_witness:
  "beam_serialize_frame (Some F2) (Some (replicate 7 0)) None = Some (ESP_OK, Some W2, None) \<and>
   beam_parse_into_frame (Some (W2[4 := W2 ! 4 XOR 2 ^ 7])) (Some out0)
     = Some (ESP_ERR_INVALID_CRC, Some out0) \<and>
   beam_parse_into_frame (Some (W2[2 := W2 ! 2 XOR 2 ^ 0])) (Some out0)
     = Some (ESP_ERR_INVALID_SIZE, Some out0)"
proof -
  have ser: "beam_serialize_frame (Some F2) (Some (replicate 7 0)) None = Some (ESP_OK, Some W2, None)"
    by code_simp
  have po: "length (payload out0) = MAX_PAYLOAD_SIZE"
    by (simp add: out0_def MAX_PAYLOAD_SIZE_def)
  have sz: "FRAME_SIZE (unat (len (header F2))) = 7"
    by (simp add: F2_def FRAME_SIZE_def FRAME_HEADER_SIZE_def FRAME_CRC_SIZE_def)
  have i: "4 < FRAME_SIZE (unat (len (header F2)))" "2 < FRAME_SIZE (unat (len (header F2)))"
    by (simp_all add: sz)
  have k: "(7 :: nat) < 8" "(0 :: nat) < 8" by simp_all
  have nb: "\<not> bit (W2 ! 2) (0 :: nat)" by (simp add: W2_def)
  have tk: "take 7 W2 = W2" by (simp add: W2_def)
  from single_bit_flip_rejected [OF ser po i(1) k(1)] single_bit_flip_rejected [OF ser po i(2) k(2)]
    ser nb
  show ?thesis by (simp add: sz tk)
qed

text \<open>
  The claim as stated fails on the length byte. Setting bit 0 of the length of an empty
  frame yields \<open>ESP_ERR_INVALID_SIZE\<close>; and clearing bit 1 of the length of a
  two-byte frame whose payload happens to be the checksum of the shortened header yields
  \<open>ESP_OK\<close>.
\<close>

theorem single_bit_flip_counterexample:
  "beam_serialize_frame (Some out0) (Some (replicate 5 0)) None = Some (ESP_OK, Some W0, None) \<and>
   beam_parse_into_frame (Some (W0[2 := W0 ! 2 XOR 2 ^ 0])) (Some out0)
     = Some (ESP_ERR_INVALID_SIZE, Some out0) \<and>
   beam_serialize_frame (Some F2) (Some (replicate 7 0)) None = Some (ESP_OK, Some W2, None) \<and>
   beam_parse_into_frame (Some (W2[2 := W2 ! 2 XOR 2 ^ 1])) (Some out0)
     = Some (ESP_OK, Some (out0\<lparr>header := \<lparr>msg_id = 5, seq = 9, len = 0\<rparr>, crc := 0x9DF4\<rparr>))"
  by code_simp

text \<open>
  Claim C6 (boundary). A buffer that declares \<open>len = MAX_PAYLOAD_SIZE\<close>, is long
  enough and carries the matching checksum parses successfully; a frame with
  \<open>len = MAX_PAYLOAD_SIZE\<close> serializes successfully into a buffer of sufficient capacity;
  and a buffer that declares \<open>len = MAX_PAYLOAD_SIZE + 1\<close> is rejected with
  \<open>ESP_ERR_INVALID_SIZE\<close> whatever the CRC engine is or would return, that is, the
  verdict is reached without the engine's result.
\<close>

theorem boundary_lengths:
  "(FRAME_SIZE MAX_PAYLOAD_SIZE \<le> length data \<and> unat (data ! 2) = MAX_PAYLOAD_SIZE \<and>
    length (payload out) = MAX_PAYLOAD_SIZE \<and>
    compute_frame_crc data MAX_PAYLOAD_SIZE =
      Some (le16 (data ! (FRAME_HEADER_SIZE + MAX_PAYLOAD_SIZE))
                 (data ! (FRAME_HEADER_SIZE + MAX_PAYLOAD_SIZE + 1))) \<longrightarrow>
      (\<exists>f. beam_parse_into_frame (Some data) (Some out) = Some (ESP_OK, Some f) \<and>
           unat (len (header f)) = MAX_PAYLOAD_SIZE)) \<and>
   (unat (len (header F)) = MAX_PAYLOAD_SIZE \<and> length (payload F) = MAX_PAYLOAD_SIZE \<and>
    FRAME_SIZE MAX_PAYLOAD_SIZE \<le> length buf \<longrightarrow>
      (\<exists>wire. beam_serialize_frame (Some F) (Some buf) os =
         Some (ESP_OK, Some wire,
               (case os of None \<Rightarrow> None | Some v \<Rightarrow> Some (FRAME_SIZE MAX_PAYLOAD_SIZE))))) \<and>
   (FRAME_HEADER_SIZE \<le> length data' \<and> unat (data' ! 2) = MAX_PAYLOAD_SIZE + 1 \<longrightarrow>
      parse_into_frame_with engine data' out' = Some (ESP_ERR_INVALID_SIZE, out') \<and>
      beam_parse_into_frame (Some data') (Some out') = Some (ESP_ERR_INVALID_SIZE, Some out'))"
proof (intro conjI impI)
  assume a: "FRAME_SIZE MAX_PAYLOAD_SIZE \<le> length data \<and> unat (data ! 2) = MAX_PAYLOAD_SIZE \<and>
    length (payload out) = MAX_PAYLOAD_SIZE \<and>
    compute_frame_crc data MAX_PAYLOAD_SIZE =
      Some (le16 (data ! (FRAME_HEADER_SIZE + MAX_PAYLOAD_SIZE))
                 (data ! (FRAME_HEADER_SIZE + MAX_PAYLOAD_SIZE + 1)))"
  then have po: "MAX_PAYLOAD_SIZE \<le> length (payload out)" by simp
  from a have hs: "FRAME_HEADER_SIZE + MAX_PAYLOAD_SIZE \<le> length data"
    by (simp add: FRAME_SIZE_def)
  from a compute_frame_crc_eq [OF hs]
  have "crc16 (take (FRAME_HEADER_SIZE + unat (data ! 2)) data) = received_crc_of data"
    by (simp add: received_crc_of_def)
  moreover from a have "\<not> length data < BEAM_FRAME_MIN_SIZE"
    by (simp add: FRAME_SIZE_def FRAME_HEADER_SIZE_def FRAME_CRC_SIZE_def BEAM_FRAME_MIN_SIZE_def)
  ultimately have "beam_parse_into_frame (Some data) (Some out) =
      Some (ESP_OK, Some (parsed_frame data out))"
    using a by (simp add: beam_parse_eq [OF po])
  moreover have "unat (len (header (parsed_frame data out))) = MAX_PAYLOAD_SIZE"
    using a by (simp add: parsed_frame_def)
  ultimately show "\<exists>f. beam_parse_into_frame (Some data) (Some out) = Some (ESP_OK, Some f) \<and>
      unat (len (header f)) = MAX_PAYLOAD_SIZE"
    by blast
next
  assume b: "unat (len (header F)) = MAX_PAYLOAD_SIZE \<and> length (payload F) = MAX_PAYLOAD_SIZE \<and>
    FRAME_SIZE MAX_PAYLOAD_SIZE \<le> length buf"
  then have "beam_serialize_frame (Some F) (Some buf) os =
      Some (ESP_OK, Some (wire_of F @ drop (FRAME_SIZE (unat (len (header F)))) buf),
            (case os of None \<Rightarrow> None | Some v \<Rightarrow> Some (FRAME_SIZE (unat (len (header F))))))"
    by (intro beam_serialize_frame_eq) simp_all
  with b show "\<exists>wire. beam_serialize_frame (Some F) (Some buf) os =
      Some (ESP_OK, Some wire,
            (case os of None \<Rightarrow> None | Some v \<Rightarrow> Some (FRAME_SIZE MAX_PAYLOAD_SIZE)))"
    by (cases os) simp_all
next
  assume c: "FRAME_HEADER_SIZE \<le> length data' \<and> unat (data' ! 2) = MAX_PAYLOAD_SIZE + 1"
  then show p: "parse_into_frame_with engine data' out' = Some (ESP_ERR_INVALID_SIZE, out')"
    by (intro parse_len_exceeds) simp_all
  from c have p': "parse_into_frame data' out' = Some (ESP_ERR_INVALID_SIZE, out')"
    unfolding parse_into_frame_def by (intro parse_len_exceeds) simp_all
  then show "beam_parse_into_frame (Some data') (Some out') = Some (ESP_ERR_INVALID_SIZE, Some out')"
    by (simp add: beam_parse_into_frame_def)
qed

theorem boundary_lengths_witness:
  "beam_serialize_frame (Some Fmax) (Some (replicate 205 0)) (Some 0) = Some (ESP_OK, Some Wmax, Some 205) \<and>
   (\<exists>f. beam_parse_into_frame (Some Wmax) (Some out0) = Some (ESP_OK, Some f) \<and>
        unat (len (header f)) = MAX_PAYLOAD_SIZE) \<and>
   parse_into_frame_with (\<lambda>d n. None) [9, 1, 201, 0, 0] out0 = Some (ESP_ERR_INVALID_SIZE, out0) \<and>
   beam_parse_into_frame (Some [9, 1, 201, 0, 0]) (Some out0) = Some (ESP_ERR_INVALID_SIZE, Some out0)"
proof -
  have fb: "frame_bytes Fmax = 9 # 1 # 200 # replicate 200 0xAB"
    by (simp add: frame_bytes_def Fmax_def)
  have cm: "crc16 (9 # 1 # 200 # replicate 200 0xAB) = 0x060C"
    by code_simp
  have by2: "crc_lo 0x060C = 0x0C" "crc_hi 0x060C = 0x06" "le16 0x0C 0x06 = 0x060C"
    by code_simp+
  have wo: "wire_of Fmax = Wmax"
    by (simp add: wire_of_def fb cm by2 Wmax_def)
  have b: "unat (len (header Fmax)) = MAX_PAYLOAD_SIZE \<and> length (payload Fmax) = MAX_PAYLOAD_SIZE \<and>
    FRAME_SIZE MAX_PAYLOAD_SIZE \<le> length (replicate 205 (0 :: uint8_t))"
    by (simp add: Fmax_def MAX_PAYLOAD_SIZE_def FRAME_SIZE_def FRAME_HEADER_SIZE_def FRAME_CRC_SIZE_def)
  have ser: "beam_serialize_frame (Some Fmax) (Some (replicate 205 0)) (Some 0)
      = Some (ESP_OK, Some Wmax, Some 205)"
    using b beam_serialize_frame_eq [of Fmax "replicate 205 0" "Some 0"]
    by (simp add: wo FRAME_SIZE_def FRAME_HEADER_SIZE_def FRAME_CRC_SIZE_def MAX_PAYLOAD_SIZE_def)
  have lw: "length Wmax = 205" by (simp add: Wmax_def)
  have nth: "Wmax ! 2 = 200" "Wmax ! 203 = 0x0C" "Wmax ! 204 = 0x06"
    by (simp_all add: Wmax_def nth_append)
  have tk: "take 203 Wmax = 9 # 1 # 200 # replicate 200 0xAB"
    by (simp add: Wmax_def)
  have "compute_frame_crc Wmax MAX_PAYLOAD_SIZE = Some (crc16 (take (FRAME_HEADER_SIZE + MAX_PAYLOAD_SIZE) Wmax))"
    by (rule compute_frame_crc_eq) (simp add: lw FRAME_HEADER_SIZE_def MAX_PAYLOAD_SIZE_def)
  then have a: "FRAME_SIZE MAX_PAYLOAD_SIZE \<le> length Wmax \<and> unat (Wmax ! 2) = MAX_PAYLOAD_SIZE \<and>
    length (payload out0) = MAX_PAYLOAD_SIZE \<and>
    compute_frame_crc Wmax MAX_PAYLOAD_SIZE =
      Some (le16 (Wmax ! (FRAME_HEADER_SIZE + MAX_PAYLOAD_SIZE))
                 (Wmax ! (FRAME_HEADER_SIZE + MAX_PAYLOAD_SIZE + 1)))"
    by (simp add: lw nth tk cm by2 out0_def FRAME_SIZE_def FRAME_HEADER_SIZE_def FRAME_CRC_SIZE_def
        MAX_PAYLOAD_SIZE_def)
  have c: "FRAME_HEADER_SIZE \<le> length [9, 1, 201, 0, 0 :: uint8_t] \<and>
    unat ([9, 1, 201, 0, 0 :: uint8_t] ! 2) = MAX_PAYLOAD_SIZE + 1"
    by (simp add: FRAME_HEADER_SIZE_def MAX_PAYLOAD_SIZE_def)
  from boundary_lengths [of Wmax out0 Fmax "replicate 205 0" "Some 0" "[9, 1, 201, 0, 0]" "\<lambda>d n. None" out0]
    a b c ser
  show ?thesis by blast
qed

text \<open>
  Claim C7 (no partial mutation). With an output object whose union has its
  \<open>MAX_PAYLOAD_SIZE\<close> bytes, \<open>beam_parse_into_frame\<close> always returns, and on every
  failure path (a null argument, a buffer below the minimum size, a declared length above
  \<open>MAX_PAYLOAD_SIZE\<close>, a buffer shorter than the declared frame, a checksum mismatch) it
  returns the corresponding error and leaves the output frame exactly as it was. On
  success the three header fields are those of the buffer, \<open>crc\<close> is the received
  checksum and the payload holds the bytes the dispatcher stores.
\<close>

theorem parse_all_or_nothing:
  assumes wf: "case out_frame of None \<Rightarrow> True | Some out \<Rightarrow> length (payload out) = MAX_PAYLOAD_SIZE"
  shows "\<exists>e r. beam_parse_into_frame data out_frame = Some (e, r) \<and>
     (e \<noteq> ESP_OK \<longrightarrow> r = out_frame) \<and>
     (data = None \<or> out_frame = None \<longrightarrow> e = ESP_ERR_INVALID_ARG) \<and>
     (\<forall>d out. data = Some d \<and> out_frame = Some out \<longrightarrow>
        (length d < BEAM_FRAME_MIN_SIZE \<longrightarrow> e = ESP_ERR_INVALID_SIZE) \<and>
        (BEAM_FRAME_MIN_SIZE \<le> length d \<and> MAX_PAYLOAD_SIZE < unat (d ! 2) \<longrightarrow>
           e = ESP_ERR_INVALID_SIZE) \<and>
        (BEAM_FRAME_MIN_SIZE \<le> length d \<and> length d < FRAME_SIZE (unat (d ! 2)) \<longrightarrow>
           e = ESP_ERR_INVALID_SIZE) \<and>
        (BEAM_FRAME_MIN_SIZE \<le> length d \<and> unat (d ! 2) \<le> MAX_PAYLOAD_SIZE \<and>
         FRAME_SIZE (unat (d ! 2)) \<le> length d \<and>
         compute_frame_crc d (unat (d ! 2)) \<noteq>
           Some (le16 (d ! (FRAME_HEADER_SIZE + unat (d ! 2))) (d ! (FRAME_HEADER_SIZE + unat (d ! 2) + 1)))
           \<longrightarrow> e = ESP_ERR_INVALID_CRC) \<and>
        (e = ESP_OK \<longrightarrow>
           r = Some \<lparr>header = \<lparr>msg_id = d ! 0, seq = d ! 1, len = d ! 2\<rparr>,
                     payload = take (stored_size (d ! 0) (d ! 2)) (drop FRAME_HEADER_SIZE d)
                               @ drop (stored_size (d ! 0) (d ! 2)) (payload out),
                     crc = le16 (d ! (FRAME_HEADER_SIZE + unat (d ! 2)))
                                (d ! (FRAME_HEADER_SIZE + unat (d ! 2) + 1))\<rparr>))"
proof (cases data)
  case None
  then show ?thesis by (simp add: beam_parse_into_frame_def)
next
  case (Some d)
  note d = this
  show ?thesis
  proof (cases out_frame)
    case None
    with d show ?thesis by (simp add: beam_parse_into_frame_def)
  next
    case (Some out)
    with wf have po: "MAX_PAYLOAD_SIZE \<le> length (payload out)" by simp
    have crc: "compute_frame_crc d (unat (d ! 2)) =
        Some (crc16 (take (FRAME_HEADER_SIZE + unat (d ! 2)) d))"
      if "FRAME_SIZE (unat (d ! 2)) \<le> length d"
      using that by (intro compute_frame_crc_eq) (simp add: FRAME_SIZE_def)
    show ?thesis
      unfolding d Some beam_parse_eq [OF po]
      by (auto simp add: crc parsed_frame_def received_crc_of_def)
  qed
qed

theorem parse_all_or_nothing_witness:
  "beam_parse_into_frame None (Some out0) = Some (ESP_ERR_INVALID_ARG, Some out0) \<and>
   beam_parse_into_frame (Some W1) None = Some (ESP_ERR_INVALID_ARG, None) \<and>
   beam_parse_into_frame (Some [0, 7, 13]) (Some out0) = Some (ESP_ERR_INVALID_SIZE, Some out0) \<and>
   beam_parse_into_frame (Some [0, 7, 201, 0, 0]) (Some out0) = Some (ESP_ERR_INVALID_SIZE, Some out0) \<and>
   beam_parse_into_frame (Some (butlast W1)) (Some out0) = Some (ESP_ERR_INVALID_SIZE, Some out0) \<and>
   beam_parse_into_frame (Some (W1[17 := 0])) (Some out0) = Some (ESP_ERR_INVALID_CRC, Some out0) \<and>
   beam_parse_into_frame (Some W1) (Some out0) = Some (ESP_OK, Some G1)"
proof -
  have wf: "case Some out0 of None \<Rightarrow> True | Some out \<Rightarrow> length (payload out) = MAX_PAYLOAD_SIZE"
    by (simp add: out0_def MAX_PAYLOAD_SIZE_def)
  have wn: "case (None :: beam_frame option) of None \<Rightarrow> True
      | Some out \<Rightarrow> length (payload out) = MAX_PAYLOAD_SIZE"
    by simp
  have e: "compute_frame_crc (W1[17 := 0]) (unat ((W1[17 := 0]) ! 2)) \<noteq>
      Some (le16 ((W1[17 := 0]) ! (FRAME_HEADER_SIZE + unat ((W1[17 := 0]) ! 2)))
                 ((W1[17 := 0]) ! (FRAME_HEADER_SIZE + unat ((W1[17 := 0]) ! 2) + 1)))"
    by code_simp
  have ok: "beam_parse_into_frame (Some W1) (Some out0) = Some (ESP_OK, Some G1)"
    by code_simp
  have sizes: "length [0, 7, 13 :: uint8_t] < BEAM_FRAME_MIN_SIZE"
    "BEAM_FRAME_MIN_SIZE \<le> length [0, 7, 201, 0, 0 :: uint8_t] \<and>
       MAX_PAYLOAD_SIZE < unat ([0, 7, 201, 0, 0 :: uint8_t] ! 2)"
    "BEAM_FRAME_MIN_SIZE \<le> length (butlast W1) \<and> length (butlast W1) < FRAME_SIZE (unat (butlast W1 ! 2))"
    "BEAM_FRAME_MIN_SIZE \<le> length (W1[17 := 0]) \<and> unat ((W1[17 := 0]) ! 2) \<le> MAX_PAYLOAD_SIZE \<and>
       FRAME_SIZE (unat ((W1[17 := 0]) ! 2)) \<le> length (W1[17 := 0])"
    by (simp_all add: W1_def BEAM_FRAME_MIN_SIZE_def MAX_PAYLOAD_SIZE_def FRAME_SIZE_def
        FRAME_HEADER_SIZE_def FRAME_CRC_SIZE_def)
  from parse_all_or_nothing [OF wf, of None]
  have 1: "beam_parse_into_frame None (Some out0) = Some (ESP_ERR_INVALID_ARG, Some out0)"
    by auto
  from parse_all_or_nothing [OF wn, of "Some W1"]
  have 2: "beam_parse_into_frame (Some W1) None = Some (ESP_ERR_INVALID_ARG, None)"
    by auto
  from parse_all_or_nothing [OF wf, of "Some [0, 7, 13]"] sizes(1)
  have 3: "beam_parse_into_frame (Some [0, 7, 13]) (Some out0) = Some (ESP_ERR_INVALID_SIZE, Some out0)"
    by auto
  from parse_all_or_nothing [OF wf, of "Some [0, 7, 201, 0, 0]"] sizes(2)
  have 4: "beam_parse_into_frame (Some [0, 7, 201, 0, 0]) (Some out0) = Some (ESP_ERR_INVALID_SIZE, Some out0)"
    by auto
  from parse_all_or_nothing [OF wf, of "Some (butlast W1)"] sizes(3)
  have 5: "beam_parse_into_frame (Some (butlast W1)) (Some out0) = Some (ESP_ERR_INVALID_SIZE, Some out0)"
    by auto
  from parse_all_or_nothing [OF wf, of "Some (W1[17 := 0])"] sizes(4) e
  have 6: "beam_parse_into_frame (Some (W1[17 := 0])) (Some out0) = Some (ESP_ERR_INVALID_CRC, Some out0)"
    by auto
  from 1 2 3 4 5 6 ok show ?thesis by (intro conjI)
qed

text \<open>
  Claim C8 (serializer layout). For a frame whose union has its \<open>MAX_PAYLOAD_SIZE\<close> bytes
  and any output buffer, \<open>beam_serialize_frame\<close> always returns without touching memory
  outside the buffer: the buffer keeps its length. It succeeds exactly when
  \<open>len \<le> MAX_PAYLOAD_SIZE\<close> and the capacity is at least \<open>3 + len + 2\<close>; a larger
  \<open>len\<close> gives \<open>ESP_ERR_INVALID_STATE\<close>, a smaller capacity gives
  \<open>ESP_ERR_INVALID_SIZE\<close>, and on both failures the buffer and \<open>out_size\<close> are left as
  they were. Whenever it succeeds on a frame with \<open>len = L\<close>, the buffer it leaves has
  the header fields at offsets 0, 1 and 2, the first \<open>L\<close> bytes of the payload from
  offset 3, and at offsets \<open>3 + L\<close> and \<open>4 + L\<close> the low and the high byte of the
  checksum of header and payload; every byte from offset \<open>3 + L + 2\<close> on is unchanged,
  a non-null \<open>out_size\<close> receives \<open>3 + L + 2\<close> and a null one stays null. A null
  frame or buffer pointer gives \<open>ESP_ERR_INVALID_ARG\<close> and writes nothing.
\<close>

theorem serialize_layout:
  assumes pf: "length (payload F) = MAX_PAYLOAD_SIZE"
  shows "(\<exists>e wire os' c.
     beam_serialize_frame (Some F) (Some buf) os = Some (e, Some wire, os') \<and>
     length wire = length buf \<and>
     (e = ESP_OK \<longleftrightarrow>
        unat (len (header F)) \<le> MAX_PAYLOAD_SIZE \<and> FRAME_SIZE (unat (len (header F))) \<le> length buf) \<and>
     (MAX_PAYLOAD_SIZE < unat (len (header F)) \<longrightarrow> e = ESP_ERR_INVALID_STATE) \<and>
     (unat (len (header F)) \<le> MAX_PAYLOAD_SIZE \<and> length buf < FRAME_SIZE (unat (len (header F)))
        \<longrightarrow> e = ESP_ERR_INVALID_SIZE) \<and>
     (e \<noteq> ESP_OK \<longrightarrow> wire = buf \<and> os' = os) \<and>
     (e = ESP_OK \<longrightarrow>
        wire ! 0 = msg_id (header F) \<and> wire ! 1 = seq (header F) \<and> wire ! 2 = len (header F) \<and>
        take (unat (len (header F))) (drop FRAME_HEADER_SIZE wire)
          = take (unat (len (header F))) (payload F) \<and>
        compute_frame_crc wire (unat (len (header F))) = Some c \<and>
        c = crc16 ([msg_id (header F), seq (header F), len (header F)]
                   @ take (unat (len (header F))) (payload F)) \<and>
        wire ! (FRAME_HEADER_SIZE + unat (len (header F))) = ucast (c AND 0xFF) \<and>
        wire ! (FRAME_HEADER_SIZE + unat (len (header F)) + 1) = ucast (drop_bit 8 c AND 0xFF) \<and>
        drop (FRAME_SIZE (unat (len (header F)))) wire
          = drop (FRAME_SIZE (unat (len (header F)))) buf \<and>
        os' = (case os of None \<Rightarrow> None
               | Some v \<Rightarrow> Some (FRAME_HEADER_SIZE + unat (len (header F)) + 2)))) \<and>
     beam_serialize_frame None out_buffer os = Some (ESP_ERR_INVALID_ARG, out_buffer, os) \<and>
     beam_serialize_frame (Some F) None os = Some (ESP_ERR_INVALID_ARG, None, os)"
proof (intro conjI)
  let ?L = "unat (len (header F))"
  show "beam_serialize_frame None out_buffer os = Some (ESP_ERR_INVALID_ARG, out_buffer, os)"
    by (simp add: beam_serialize_frame_def)
  show "beam_serialize_frame (Some F) None os = Some (ESP_ERR_INVALID_ARG, None, os)"
    by (simp add: beam_serialize_frame_def)
  let ?P = "\<lambda>e wire os' c.
     beam_serialize_frame (Some F) (Some buf) os = Some (e, Some wire, os') \<and>
     length wire = length buf \<and>
     (e = ESP_OK \<longleftrightarrow> ?L \<le> MAX_PAYLOAD_SIZE \<and> FRAME_SIZE ?L \<le> length buf) \<and>
     (MAX_PAYLOAD_SIZE < ?L \<longrightarrow> e = ESP_ERR_INVALID_STATE) \<and>
     (?L \<le> MAX_PAYLOAD_SIZE \<and> length buf < FRAME_SIZE ?L \<longrightarrow> e = ESP_ERR_INVALID_SIZE) \<and>
     (e \<noteq> ESP_OK \<longrightarrow> wire = buf \<and> os' = os) \<and>
     (e = ESP_OK \<longrightarrow>
        wire ! 0 = msg_id (header F) \<and> wire ! 1 = seq (header F) \<and> wire ! 2 = len (header F) \<and>
        take ?L (drop FRAME_HEADER_SIZE wire) = take ?L (payload F) \<and>
        compute_frame_crc wire ?L = Some c \<and>
        c = crc16 ([msg_id (header F), seq (header F), len (header F)] @ take ?L (payload F)) \<and>
        wire ! (FRAME_HEADER_SIZE + ?L) = ucast (c AND 0xFF) \<and>
        wire ! (FRAME_HEADER_SIZE + ?L + 1) = ucast (drop_bit 8 c AND 0xFF) \<and>
        drop (FRAME_SIZE ?L) wire = drop (FRAME_SIZE ?L) buf \<and>
        os' = (case os of None \<Rightarrow> None | Some v \<Rightarrow> Some (FRAME_HEADER_SIZE + ?L + 2)))"
  show "\<exists>e wire os' c. ?P e wire os' c"
  proof (cases "MAX_PAYLOAD_SIZE < ?L")
    case True
    then have "beam_serialize_frame (Some F) (Some buf) os = Some (ESP_ERR_INVALID_STATE, Some buf, os)"
      by (simp add: beam_serialize_frame_def)
    with True have "?P ESP_ERR_INVALID_STATE buf os 0" by simp
    then show ?thesis by (intro exI)
  next
    case False
    then have mx: "?L \<le> MAX_PAYLOAD_SIZE" by simp
    show ?thesis
    proof (cases "length buf < FRAME_SIZE ?L")
      case True
      then have "serialize_frame F buf os = Some (ESP_ERR_INVALID_SIZE, buf, os)"
        by (simp add: serialize_frame_def Let_def)
      with mx have "beam_serialize_frame (Some F) (Some buf) os = Some (ESP_ERR_INVALID_SIZE, Some buf, os)"
        by (simp add: beam_serialize_frame_def)
      with True mx have "?P ESP_ERR_INVALID_SIZE buf os 0" by simp
      then show ?thesis by (intro exI)
    next
      case False
      then have sz: "FRAME_SIZE ?L \<le> length buf" by simp
      from mx pf have pl: "?L \<le> length (payload F)" by simp
      let ?c = "crc16 (frame_bytes F)"
      let ?wire = "wire_of F @ drop (FRAME_SIZE ?L) buf"
      let ?os = "case os of None \<Rightarrow> None | Some v \<Rightarrow> Some (FRAME_HEADER_SIZE + ?L + 2)"
      have lfb: "length (frame_bytes F) = FRAME_HEADER_SIZE + ?L"
        using pl by (rule length_frame_bytes)
      have lw: "length (wire_of F) = FRAME_SIZE ?L"
        using pl by (rule length_wire_of)
      have w: "?wire = frame_bytes F @ crc_lo ?c # crc_hi ?c # drop (FRAME_SIZE ?L) buf"
        by (simp add: wire_of_def)
      have ser: "beam_serialize_frame (Some F) (Some buf) os = Some (ESP_OK, Some ?wire, ?os)"
        using beam_serialize_frame_eq [OF mx pl sz, of os]
        by (cases os) (simp_all add: FRAME_SIZE_def FRAME_CRC_SIZE_def)
      have len: "length ?wire = length buf"
        using lw sz by simp
      have h: "?wire ! 0 = msg_id (header F)" "?wire ! 1 = seq (header F)" "?wire ! 2 = len (header F)"
        by (simp_all add: wire_of_def frame_bytes_def eval_nat_numeral)
      have py: "take ?L (drop FRAME_HEADER_SIZE ?wire) = take ?L (payload F)"
        using pl by (simp add: wire_of_def frame_bytes_def FRAME_HEADER_SIZE_def eval_nat_numeral)
      have cc: "compute_frame_crc ?wire ?L = Some ?c"
      proof -
        have "FRAME_HEADER_SIZE + ?L \<le> length ?wire"
          using lw by (simp add: FRAME_SIZE_def)
        from compute_frame_crc_eq [OF this] show ?thesis
          by (simp only: take_wire_of [OF pl])
      qed
      have fb: "?c = crc16 ([msg_id (header F), seq (header F), len (header F)] @ take ?L (payload F))"
        by (simp add: frame_bytes_def)
      have lo: "?wire ! (FRAME_HEADER_SIZE + ?L) = ucast (?c AND 0xFF)"
        unfolding w lfb [symmetric] by (simp add: nth_append crc_lo_def)
      have hi: "?wire ! (FRAME_HEADER_SIZE + ?L + 1) = ucast (drop_bit 8 ?c AND 0xFF)"
        unfolding w lfb [symmetric] by (simp add: nth_append crc_hi_def)
      have dr: "drop (FRAME_SIZE ?L) ?wire = drop (FRAME_SIZE ?L) buf"
        using lw by simp
      have "?P ESP_OK ?wire ?os ?c"
        apply (intro conjI impI)
        subgoal by (rule ser)
        subgoal by (rule len)
        subgoal using mx sz by simp
        subgoal using mx by simp
        subgoal using sz by simp
        subgoal by simp
        subgoal by simp
        subgoal by (rule h)
        subgoal by (rule h)
        subgoal by (rule h)
        subgoal by (rule py)
        subgoal by (rule cc)
        subgoal by (rule fb)
        subgoal by (rule lo)
        subgoal by (rule hi)
        subgoal by (rule dr)
        subgoal by (rule refl)
        done
      then show ?thesis by (intro exI)
    qed
  qed
qed

theorem serialize_layout_witness:
  "beam_serialize_frame (Some F2) (Some (replicate 9 0xEE)) (Some 0)
     = Some (ESP_OK, Some (W2 @ [0xEE, 0xEE]), Some 7) \<and>
   compute_frame_crc (W2 @ [0xEE, 0xEE]) 2 = Some 0x225D \<and>
   crc16 [5, 9, 2, 0xF4, 0x9D] = 0x225D \<and>
   beam_serialize_frame (Some F2) (Some (replicate 6 0xEE)) (Some 77)
     = Some (ESP_ERR_INVALID_SIZE, Some (replicate 6 0xEE), Some 77) \<and>
   beam_serialize_frame (Some (F2\<lparr>header := \<lparr>msg_id = 5, seq = 9, len = 201\<rparr>\<rparr>))
       (Some (replicate 300 0xEE)) (Some 77)
     = Some (ESP_ERR_INVALID_STATE, Some (replicate 300 0xEE), Some 77) \<and>
   beam_serialize_frame None (Some (replicate 9 0xEE)) (Some 77)
     = Some (ESP_ERR_INVALID_ARG, Some (replicate 9 0xEE), Some 77) \<and>
   beam_serialize_frame (Some F2) None (Some 77) = Some (ESP_ERR_INVALID_ARG, None, Some 77)"
proof -
  let ?F3 = "F2\<lparr>header := \<lparr>msg_id = 5, seq = 9, len = 201\<rparr>\<rparr>"
  have pf: "length (payload F2) = MAX_PAYLOAD_SIZE" "length (payload ?F3) = MAX_PAYLOAD_SIZE"
    by (simp_all add: F2_def MAX_PAYLOAD_SIZE_def)
  have L: "unat (len (header F2)) = 2" "msg_id (header F2) = 5" "seq (header F2) = 9"
    "len (header F2) = 2" "take 2 (payload F2) = [0xF4, 0x9D]"
    by (simp_all add: F2_def)
  have ser: "beam_serialize_frame (Some F2) (Some (replicate 9 0xEE)) (Some 0)
     = Some (ESP_OK, Some (W2 @ [0xEE, 0xEE]), Some 7)"
    by code_simp
  have cv: "compute_frame_crc (W2 @ [0xEE, 0xEE]) 2 = Some 0x225D"
    by code_simp
  from serialize_layout [OF pf(1), of "replicate 9 0xEE" "Some 0" None, THEN conjunct1]
  obtain e wire os' c where
    a: "beam_serialize_frame (Some F2) (Some (replicate 9 0xEE)) (Some 0) = Some (e, Some wire, os')"
    and b: "e = ESP_OK \<longrightarrow>
        compute_frame_crc wire (unat (len (header F2))) = Some c \<and>
        c = crc16 ([msg_id (header F2), seq (header F2), len (header F2)]
                   @ take (unat (len (header F2))) (payload F2))"
    by blast
  from a ser have "e = ESP_OK" "wire = W2 @ [0xEE, 0xEE]" by simp_all
  with b cv have crc: "crc16 [5, 9, 2, 0xF4, 0x9D] = 0x225D"
    by (auto simp add: L)
  from serialize_layout [OF pf(1), of "replicate 6 0xEE" "Some 77" None, THEN conjunct1]
  obtain e2 wire2 os2 where
    a2: "beam_serialize_frame (Some F2) (Some (replicate 6 0xEE)) (Some 77) = Some (e2, Some wire2, os2)"
    and b2: "unat (len (header F2)) \<le> MAX_PAYLOAD_SIZE \<and>
        length (replicate 6 (0xEE :: uint8_t)) < FRAME_SIZE (unat (len (header F2)))
        \<longrightarrow> e2 = ESP_ERR_INVALID_SIZE"
    and c2: "e2 \<noteq> ESP_OK \<longrightarrow> wire2 = replicate 6 0xEE \<and> os2 = Some 77"
    by blast
  from b2 have "e2 = ESP_ERR_INVALID_SIZE"
    by (simp add: L MAX_PAYLOAD_SIZE_def FRAME_SIZE_def FRAME_HEADER_SIZE_def FRAME_CRC_SIZE_def)
  with a2 c2 have small: "beam_serialize_frame (Some F2) (Some (replicate 6 0xEE)) (Some 77)
      = Some (ESP_ERR_INVALID_SIZE, Some (replicate 6 0xEE), Some 77)"
    by simp
  from serialize_layout [OF pf(2), of "replicate 300 0xEE" "Some 77" None, THEN conjunct1]
  obtain e3 wire3 os3 where
    a3: "beam_serialize_frame (Some ?F3) (Some (replicate 300 0xEE)) (Some 77) = Some (e3, Some wire3, os3)"
    and b3: "MAX_PAYLOAD_SIZE < unat (len (header ?F3)) \<longrightarrow> e3 = ESP_ERR_INVALID_STATE"
    and c3: "e3 \<noteq> ESP_OK \<longrightarrow> wire3 = replicate 300 0xEE \<and> os3 = Some 77"
    by blast
  from b3 have "e3 = ESP_ERR_INVALID_STATE"
    by (simp add: MAX_PAYLOAD_SIZE_def)
  with a3 c3 have big: "beam_serialize_frame (Some ?F3) (Some (replicate 300 0xEE)) (Some 77)
      = Some (ESP_ERR_INVALID_STATE, Some (replicate 300 0xEE), Some 77)"
    by simp
  note n1 = serialize_layout [OF pf(1), of "replicate 9 0xEE" "Some 77" "Some (replicate 9 0xEE)",
      THEN conjunct2, THEN conjunct1]
  note n2 = serialize_layout [OF pf(1), of "replicate 9 0xEE" "Some 77" None,
      THEN conjunct2, THEN conjunct2]
  from ser cv crc small big n1 n2 show ?thesis
    by (intro conjI)
qed

text \<open>
  Claim C9 (trailing bytes). If the first \<open>3 + len + 2\<close> bytes of a buffer, \<open>len\<close>
  being the length its header declares, parse successfully, then the whole buffer parses
  successfully and to the same frame, whatever follows these bytes.
\<close>

theorem trailing_bytes_ignored:
  assumes po: "length (payload out) = MAX_PAYLOAD_SIZE"
    and sz: "FRAME_SIZE (unat (d ! 2)) \<le> length d"
    and ok: "beam_parse_into_frame (Some (take (FRAME_SIZE (unat (d ! 2))) d)) (Some out)
              = Some (ESP_OK, Some f)"
  shows "beam_parse_into_frame (Some d) (Some out) = Some (ESP_OK, Some f)"
proof -
  let ?n = "unat (d ! 2)"
  let ?p = "take (FRAME_SIZE ?n) d"
  from po have po': "MAX_PAYLOAD_SIZE \<le> length (payload out)" by simp
  have two: "2 < FRAME_SIZE ?n" by (simp add: FRAME_SIZE_def FRAME_HEADER_SIZE_def)
  then have p2: "?p ! 2 = d ! 2" by simp
  have lp: "length ?p = FRAME_SIZE ?n" using sz by simp
  have tk: "take (FRAME_HEADER_SIZE + ?n) ?p = take (FRAME_HEADER_SIZE + ?n) d"
    by (simp add: FRAME_SIZE_def min_def)
  have rc: "received_crc_of ?p = received_crc_of d"
    unfolding received_crc_of_def p2 by (simp add: FRAME_SIZE_def FRAME_CRC_SIZE_def)
  have k: "stored_size (d ! 0) (d ! 2) \<le> ?n" by (rule stored_size_le)
  have dp: "take (stored_size (d ! 0) (d ! 2)) (drop FRAME_HEADER_SIZE ?p) =
      take (stored_size (d ! 0) (d ! 2)) (drop FRAME_HEADER_SIZE d)"
    using k by (simp add: drop_take FRAME_SIZE_def min_def)
  have pf: "parsed_frame ?p out = parsed_frame d out"
    unfolding parsed_frame_def p2 rc using two dp
    by (simp add: FRAME_SIZE_def FRAME_HEADER_SIZE_def)
  define p where "p = take (FRAME_SIZE ?n) d"
  from ok have c: "\<not> length p < BEAM_FRAME_MIN_SIZE" "\<not> MAX_PAYLOAD_SIZE < unat (p ! 2)"
    "crc16 (take (FRAME_HEADER_SIZE + unat (p ! 2)) p) = received_crc_of p"
    "f = parsed_frame p out"
    unfolding beam_parse_eq [OF po'] p_def [symmetric] by (auto split: if_splits)
  from c(1) lp sz have 1: "\<not> length d < BEAM_FRAME_MIN_SIZE" by (simp add: p_def)
  have 2: "\<not> MAX_PAYLOAD_SIZE < ?n"
    using c(2) unfolding p_def p2 .
  have 3: "crc16 (take (FRAME_HEADER_SIZE + ?n) d) = received_crc_of d"
    using c(3) unfolding p_def p2 tk rc .
  have 4: "f = parsed_frame d out"
    using c(4) unfolding p_def pf .
  from 1 2 3 4 sz show ?thesis
    unfolding beam_parse_eq [OF po'] by simp
qed

theorem trailing_bytes_ignored_witness:
  "beam_parse_into_frame (Some (take 18 (W1 @ [0xDE, 0xAD, 0xBE]))) (Some out0) = Some (ESP_OK, Some G1) \<and>
   beam_parse_into_frame (Some (W1 @ [0xDE, 0xAD, 0xBE])) (Some out0) = Some (ESP_OK, Some G1)"
proof -
  have po: "length (payload out0) = MAX_PAYLOAD_SIZE"
    by (simp add: out0_def MAX_PAYLOAD_SIZE_def)
  have n: "FRAME_SIZE (unat ((W1 @ [0xDE, 0xAD, 0xBE]) ! 2)) = 18"
    by (simp add: W1_def FRAME_SIZE_def FRAME_HEADER_SIZE_def FRAME_CRC_SIZE_def)
  have sz: "FRAME_SIZE (unat ((W1 @ [0xDE, 0xAD, 0xBE]) ! 2)) \<le> length (W1 @ [0xDE, 0xAD, 0xBE])"
    by (simp add: n) (simp add: W1_def)
  have ok: "beam_parse_into_frame (Some (take 18 (W1 @ [0xDE, 0xAD, 0xBE]))) (Some out0)
      = Some (ESP_OK, Some G1)"
    by code_simp
  from trailing_bytes_ignored [OF po sz, of G1] ok show ?thesis
    by (simp only: n)
qed

text \<open>
  Claim C10 (typed payloads are cut to their fixed size). After a successful parse of a
  buffer whose category is Telemetry (Battery) and whose declared length exceeds 12 (5),
  the payload of the output frame consists of the first 12 (5) payload bytes of the buffer
  followed by what the output object held before; the header is the three header bytes and
  \<open>crc\<close> is the checksum of the header and all declared payload bytes. The payload bytes
  beyond the fixed size therefore occur nowhere in the frame, yet they are covered by the
  checksum: changing any one of them makes the parser return \<open>ESP_ERR_INVALID_CRC\<close>.
\<close>

theorem typed_payload_truncated:
  assumes po: "length (payload out) = MAX_PAYLOAD_SIZE"
    and ok: "beam_parse_into_frame (Some d) (Some out) = Some (ESP_OK, Some f)"
  shows "(d ! 0 = MSG_ID_TELEMETRY \<and> sizeof_telemetry < unat (d ! 2) \<longrightarrow>
            payload f = take sizeof_telemetry (drop FRAME_HEADER_SIZE d)
                        @ drop sizeof_telemetry (payload out) \<and>
            (\<forall>i v. FRAME_HEADER_SIZE + sizeof_telemetry \<le> i \<and> i < FRAME_HEADER_SIZE + unat (d ! 2) \<and>
                   v \<noteq> d ! i \<longrightarrow>
               beam_parse_into_frame (Some (d[i := v])) (Some out)
                 = Some (ESP_ERR_INVALID_CRC, Some out))) \<and>
         (d ! 0 = MSG_ID_BATTERY \<and> sizeof_battery < unat (d ! 2) \<longrightarrow>
            payload f = take sizeof_battery (drop FRAME_HEADER_SIZE d)
                        @ drop sizeof_battery (payload out) \<and>
            (\<forall>i v. FRAME_HEADER_SIZE + sizeof_battery \<le> i \<and> i < FRAME_HEADER_SIZE + unat (d ! 2) \<and>
                   v \<noteq> d ! i \<longrightarrow>
               beam_parse_into_frame (Some (d[i := v])) (Some out)
                 = Some (ESP_ERR_INVALID_CRC, Some out))) \<and>
         header f = \<lparr>msg_id = d ! 0, seq = d ! 1, len = d ! 2\<rparr> \<and>
         crc f = crc16 (take (FRAME_HEADER_SIZE + unat (d ! 2)) d)"
proof -
  let ?n = "unat (d ! 2)"
  from po have po': "MAX_PAYLOAD_SIZE \<le> length (payload out)" by simp
  from ok have c: "crc16 (take (FRAME_HEADER_SIZE + ?n) d) = received_crc_of d"
    "f = parsed_frame d out"
    unfolding beam_parse_eq [OF po'] by (auto split: if_splits)
  have hdr: "header f = \<lparr>msg_id = d ! 0, seq = d ! 1, len = d ! 2\<rparr>"
    by (simp add: c(2) parsed_frame_def)
  have crc: "crc f = crc16 (take (FRAME_HEADER_SIZE + ?n) d)"
    by (simp add: c parsed_frame_def)
  have chg: "beam_parse_into_frame (Some (d[i := v])) (Some out) = Some (ESP_ERR_INVALID_CRC, Some out)"
    if "FRAME_HEADER_SIZE + m \<le> i" "i < FRAME_HEADER_SIZE + ?n" "v \<noteq> d ! i" for i v m
  proof -
    from that have "i < FRAME_SIZE ?n" "i \<noteq> 2"
      by (simp_all add: FRAME_SIZE_def FRAME_HEADER_SIZE_def)
    with that(3) show ?thesis
      by (intro changed_byte_invalid_crc [OF po' ok])
  qed
  have tel: "payload f = take sizeof_telemetry (drop FRAME_HEADER_SIZE d)
      @ drop sizeof_telemetry (payload out)"
    if "d ! 0 = MSG_ID_TELEMETRY" "sizeof_telemetry < ?n"
    using that by (simp add: c(2) parsed_frame_def stored_size_def)
  have bat: "payload f = take sizeof_battery (drop FRAME_HEADER_SIZE d)
      @ drop sizeof_battery (payload out)"
    if "d ! 0 = MSG_ID_BATTERY" "sizeof_battery < ?n"
    using that by (simp add: c(2) parsed_frame_def stored_size_def MSG_ID_TELEMETRY_def MSG_ID_BATTERY_def)
  show ?thesis
  proof (intro conjI impI allI)
    assume "d ! 0 = MSG_ID_TELEMETRY \<and> sizeof_telemetry < ?n"
    then show "payload f = take sizeof_telemetry (drop FRAME_HEADER_SIZE d)
        @ drop sizeof_telemetry (payload out)"
      using tel by simp
  next
    fix i v
    assume "FRAME_HEADER_SIZE + sizeof_telemetry \<le> i \<and> i < FRAME_HEADER_SIZE + ?n \<and> v \<noteq> d ! i"
    then show "beam_parse_into_frame (Some (d[i := v])) (Some out) = Some (ESP_ERR_INVALID_CRC, Some out)"
      using chg [of sizeof_telemetry i v] by simp
  next
    assume "d ! 0 = MSG_ID_BATTERY \<and> sizeof_battery < ?n"
    then show "payload f = take sizeof_battery (drop FRAME_HEADER_SIZE d)
        @ drop sizeof_battery (payload out)"
      using bat by simp
  next
    fix i v
    assume "FRAME_HEADER_SIZE + sizeof_battery \<le> i \<and> i < FRAME_HEADER_SIZE + ?n \<and> v \<noteq> d ! i"
    then show "beam_parse_into_frame (Some (d[i := v])) (Some out) = Some (ESP_ERR_INVALID_CRC, Some out)"
      using chg [of sizeof_battery i v] by simp
  next
    show "header f = \<lparr>msg_id = d ! 0, seq = d ! 1, len = d ! 2\<rparr>" by (rule hdr)
  next
    show "crc f = crc16 (take (FRAME_HEADER_SIZE + ?n) d)" by (rule crc)
  qed
qed

theorem typed_payload_truncated_witness:
  "beam_parse_into_frame (Some W1) (Some out0) = Some (ESP_OK, Some G1) \<and>
   payload G1 = take 12 (drop 3 W1) @ drop 12 (payload out0) \<and>
   beam_parse_into_frame (Some (W1[15 := 0xFF])) (Some out0) = Some (ESP_ERR_INVALID_CRC, Some out0) \<and>
   crc G1 = crc16 (take 16 W1)"
proof -
  have po: "length (payload out0) = MAX_PAYLOAD_SIZE"
    by (simp add: out0_def MAX_PAYLOAD_SIZE_def)
  have ok: "beam_parse_into_frame (Some W1) (Some out0) = Some (ESP_OK, Some G1)"
    by code_simp
  have t: "W1 ! 0 = MSG_ID_TELEMETRY \<and> sizeof_telemetry < unat (W1 ! 2)"
    by (simp add: W1_def MSG_ID_TELEMETRY_def sizeof_telemetry_def)
  have i: "FRAME_HEADER_SIZE + sizeof_telemetry \<le> 15 \<and> 15 < FRAME_HEADER_SIZE + unat (W1 ! 2) \<and>
      0xFF \<noteq> W1 ! 15"
    by (simp add: W1_def FRAME_HEADER_SIZE_def sizeof_telemetry_def)
  have n: "FRAME_HEADER_SIZE + unat (W1 ! 2) = 16" "sizeof_telemetry = 12" "FRAME_HEADER_SIZE = 3"
    by (simp_all add: W1_def FRAME_HEADER_SIZE_def sizeof_telemetry_def)
  note T = typed_payload_truncated [OF po ok]
  note A = T [THEN conjunct1, THEN mp, OF t]
  note pl = A [THEN conjunct1]
  note ch = A [THEN conjunct2, THEN spec, THEN spec, THEN mp, OF i]
  note cr = T [THEN conjunct2, THEN conjunct2, THEN conjunct2]
  have n13: "3 + unat (W1 ! 2) = 16" by (simp add: W1_def)
  show ?thesis
    using ok pl ch cr unfolding n n13 by (intro conjI)
qed

end
